theory Spec2Isabelle
  imports Complex_Main "HOL-Library.Option_ord" "HOL-Library.Sublist"
begin

section \<open>Data model\<close>

text \<open>
  A raised Python exception is a value: \<open>Exn msg\<close> carries \<open>str(e)\<close>, the only part of an
  exception the program ever reads.  A computation that may raise returns \<open>error + 'a\<close>.
\<close>

datatype error = Exn string

text \<open>
  An embedding is a vector of numbers.  The pgvector operator \<open><=>\<close> (cosine distance) is not
  code of the repository; it is a parameter of the model (\<open>distance\<close> below).
\<close>

type_synonym vec = "real list"

text \<open>Rows of \<open>models.py\<close>.  Nullable columns are options; timestamps are instants.\<close>

record user =
  u_id :: nat
  google_access_token :: "string option"
  hubspot_access_token :: "string option"

record email =
  e_id :: nat
  e_user_id :: nat
  gmail_id :: string
  thread_id :: "string option"
  subject :: "string option"
  from_email :: "string option"
  to_emails :: "string list"
  cc_emails :: "string list"
  body_text :: "string option"
  body_html :: "string option"
  received_at :: "int option"
  e_embedding :: "vec option"

text \<open>A contact as HubSpot lists it: \<open>contact_data["id"]\<close> and its \<open>properties\<close>.\<close>

record hs_contact =
  hs_id :: string
  hs_email :: "string option"
  hs_firstname :: "string option"
  hs_lastname :: "string option"
  hs_phone :: "string option"
  hs_company :: "string option"

record contact =
  c_id :: nat
  c_user_id :: nat
  hubspot_id :: string
  c_email :: "string option"
  first_name :: "string option"
  last_name :: "string option"
  phone :: "string option"
  company :: "string option"
  c_notes :: "string option"
  raw_data :: "hs_contact option"
  c_embedding :: "vec option"

record instruction =
  i_id :: nat
  i_user_id :: nat
  i_text :: string
  trigger_type :: "string option"
  is_active :: bool

record task =
  t_id :: nat
  t_user_id :: nat
  task_type :: string
  status :: string
  description :: string
  input_data :: string

text \<open>
  The module-level dictionary \<open>sync_status\<close> of \<open>integrations.py\<close>:
  user id, then source key (\<open>"gmail"\<close>, \<open>"hubspot"\<close>), then the entry.
\<close>

datatype source = Gmail | Hubspot

record sync_entry =
  syncing :: bool
  started_at :: string
  completed_at :: "string option"
  imported_count :: "nat option"
  sync_error :: "string option"

type_synonym sync_state = "nat \<rightharpoonup> (source \<rightharpoonup> sync_entry)"

subsection \<open>Messages of the chat protocol\<close>

record tool_call =
  tc_id :: string
  tc_name :: string
  tc_arguments :: string

record assistant_message =
  content :: "string option"
  tool_calls :: "tool_call list"

datatype tool_result =
  ToolSuccess "(string \<times> string) list"
| ToolFailure string

datatype message =
  SystemMsg string
| UserMsg string
| AssistantMsg assistant_message
| ToolMsg string string

text \<open>What \<open>_parse_email\<close> returns for a fetched message.\<close>

record parsed_email =
  p_thread_id :: "string option"
  p_subject :: string
  p_from_email :: string
  p_to_emails :: "string list"
  p_cc_emails :: "string list"
  p_body_text :: string
  p_body_html :: string
  p_received_at :: "int option"

subsection \<open>Effects\<close>

text \<open>
  Every call that leaves the process is recorded, in order, in the \<open>trace\<close> of the world:
  the embedding provider, the chat model, the classification call, the capability providers,
  and each entry into the tool executor and the trigger evaluator.
\<close>

datatype event =
  EmbedCall string
| ModelCall "message list" bool
| ClassifyCall string
| ToolExec string
| CapabilityCall string "string option list"
| TriggerEval nat string string
| GmailList "string option" "string option"
| GmailGet string
| HubspotList "string option"
| HubspotNotes string

record world =
  users :: "user list"
  emails :: "email list"
  contacts :: "contact list"
  instructions :: "instruction list"
  tasks :: "task list"
  sync_status :: sync_state
  trace :: "event list"

text \<open>
  The external collaborators, as functions of what the program sends them.  Each may raise.
  \<open>gmail_fetch\<close> is \<open>get_email\<close> followed by \<open>_parse_email\<close>; the first argument of the
  provider functions is the OAuth token the service object was built with.
\<close>

record env =
  embed :: "string \<Rightarrow> error + vec"
  distance :: "vec \<Rightarrow> vec \<Rightarrow> real"
  fmt_datetime :: "int option \<Rightarrow> string"
  utcnow_iso :: string
  utcnow :: int
  now_text :: string
  llm_chat :: "message list \<Rightarrow> bool \<Rightarrow> error + assistant_message"
  llm_classify :: "string \<Rightarrow> error + string option"
  json_loads :: "string \<Rightarrow> error + (string \<rightharpoonup> string)"
  json_dumps :: "tool_result \<Rightarrow> string"
  gmail_list :: "string \<Rightarrow> string option \<Rightarrow> string option \<Rightarrow> error + (string list \<times> string option)"
  gmail_fetch :: "string \<Rightarrow> string \<Rightarrow> error + parsed_email"
  hubspot_list :: "string \<Rightarrow> string option \<Rightarrow> error + (hs_contact list \<times> string option)"
  hubspot_notes :: "string \<Rightarrow> string \<Rightarrow> error + string list"
  capability :: "string \<Rightarrow> string \<Rightarrow> string option list \<Rightarrow> error + string"

definition log_event :: "event \<Rightarrow> world \<Rightarrow> world" where
  "log_event ev w = w\<lparr>trace := trace w @ [ev]\<rparr>"

section \<open>Python strings and SQL patterns\<close>

definition lower_char :: "char \<Rightarrow> char" where
  "lower_char c =
     (let n = (of_char c :: nat) in if 65 \<le> n \<and> n \<le> 90 then char_of (n + 32) else c)"

definition lower :: "string \<Rightarrow> string" where
  "lower s = map lower_char s"

text \<open>\<open>str.isspace\<close> on the ASCII range: TAB, LF, VT, FF, CR, FS, GS, RS, US and space.\<close>

definition is_space :: "char \<Rightarrow> bool" where
  "is_space c = (let n = (of_char c :: nat) in (9 \<le> n \<and> n \<le> 13) \<or> (28 \<le> n \<and> n \<le> 32))"

definition strip :: "string \<Rightarrow> string" where
  "strip s = rev (dropWhile is_space (rev (dropWhile is_space s)))"

text \<open>\<open>s.replace(' ', '')\<close>: only the space character is removed.\<close>

definition remove_spaces :: "string \<Rightarrow> string" where
  "remove_spaces s = filter (\<lambda>c. c \<noteq> CHR '' '') s"

text \<open>\<open>if s:\<close> on an optional string: \<open>None\<close> and the empty string are falsy.\<close>

definition truthy :: "string option \<Rightarrow> bool" where
  "truthy s = (case s of None \<Rightarrow> False | Some t \<Rightarrow> t \<noteq> [])"

text \<open>
  PostgreSQL \<open>LIKE\<close>: \<open>%\<close> matches any sequence, \<open>_\<close> any one character, a backslash makes
  the next pattern character literal.  A pattern that ends in a lone backslash is an error in
  PostgreSQL; the patterns built by \<open>search_emails\<close> all end in \<open>%\<close>, so that case is
  never reached from there, and it matches nothing here.
\<close>

fun like_match :: "string \<Rightarrow> string \<Rightarrow> bool" where
  "like_match [] s = (s = [])"
| "like_match (p # ps) s =
     (if p = CHR ''%'' then
        (like_match ps s \<or> (case s of [] \<Rightarrow> False | c # cs \<Rightarrow> like_match (p # ps) cs))
      else if p = CHR ''_'' then
        (case s of [] \<Rightarrow> False | c # cs \<Rightarrow> like_match ps cs)
      else if p = CHR 0x5C then
        (case ps of [] \<Rightarrow> False
         | q # qs \<Rightarrow> (case s of [] \<Rightarrow> False | c # cs \<Rightarrow> c = q \<and> like_match qs cs))
      else (case s of [] \<Rightarrow> False | c # cs \<Rightarrow> c = p \<and> like_match ps cs))"

text \<open>\<open>ILIKE\<close> compares case-insensitively.\<close>

definition ilike :: "string \<Rightarrow> string \<Rightarrow> bool" where
  "ilike pat s = like_match (lower pat) (lower s)"

section \<open>Retrieval engine (\<open>rag_service.py\<close>)\<close>

text \<open>
  \<open>get_embedding\<close>: the text is cut to its first 20000 characters, then submitted.
  One call of the provider is one \<open>EmbedCall\<close> in the trace.
\<close>

definition get_embedding :: "env \<Rightarrow> string \<Rightarrow> world \<Rightarrow> (error + vec) \<times> world" where
  "get_embedding env text w =
     (let t = (if length text > 20000 then take 20000 text else text)
      in (embed env t, log_event (EmbedCall t) w))"

text \<open>
  The first query of \<open>search_emails\<close>.  A \<open>NULL\<close> sender matches no pattern.
  \<open>ORDER BY received_at DESC\<close> puts rows without a date first (PostgreSQL's default for
  \<open>DESC\<close>), then the newest; rows of equal date keep their table order here (SQL leaves
  their order open).
\<close>

definition sender_ilike :: "string \<Rightarrow> email \<Rightarrow> bool" where
  "sender_ilike pat e = (case from_email e of None \<Rightarrow> False | Some s \<Rightarrow> ilike pat s)"

definition newest_first :: "email list \<Rightarrow> email list" where
  "newest_first es = sort_key (\<lambda>e. map_option uminus (received_at e)) es"

definition exact_matches :: "email list \<Rightarrow> nat \<Rightarrow> string \<Rightarrow> nat \<Rightarrow> email list" where
  "exact_matches es user_id query limit =
     (let query_lower = strip (lower query) in
      take limit (newest_first (filter (\<lambda>e. e_user_id e = user_id \<and>
          (sender_ilike (''%'' @ query_lower @ ''%'') e \<or>
           sender_ilike (''%'' @ remove_spaces query_lower @ ''%'') e)) es)))"

text \<open>
  The pgvector statement shared by \<open>search_emails\<close> and \<open>search_contacts\<close>:
  \<open>WHERE user_id = :user_id AND embedding IS NOT NULL ORDER BY embedding <=> q LIMIT :limit\<close>.
  Rows at equal distance keep their table order.
\<close>

definition pgvector_search ::
  "('r \<Rightarrow> nat) \<Rightarrow> ('r \<Rightarrow> vec option) \<Rightarrow> (vec \<Rightarrow> vec \<Rightarrow> real) \<Rightarrow> nat \<Rightarrow> vec \<Rightarrow> nat \<Rightarrow> 'r list \<Rightarrow> 'r list"
where
  "pgvector_search uid_of emb_of dst user_id q limit rows =
     take limit (map snd (sort_key fst
       (List.map_filter
          (\<lambda>r. case emb_of r of None \<Rightarrow> None
                | Some v \<Rightarrow> if uid_of r = user_id then Some (dst v q, r) else None)
          rows)))"

text \<open>
  The second step: load the rows whose id is among \<open>ids\<close>, build the dictionary
  \<open>{r.id: r for r in rows}\<close> (a later row overwrites an earlier one) and list
  \<open>[d[i] for i in ids if i in d]\<close>.
\<close>

definition by_ids :: "('r \<Rightarrow> nat) \<Rightarrow> nat list \<Rightarrow> 'r list \<Rightarrow> 'r list" where
  "by_ids id_of ids rows =
     (let found = filter (\<lambda>r. id_of r \<in> set ids) rows;
          d = map_of (rev (map (\<lambda>r. (id_of r, r)) found))
      in List.map_filter d ids)"

definition search_emails ::
  "env \<Rightarrow> nat \<Rightarrow> string \<Rightarrow> nat \<Rightarrow> world \<Rightarrow> (error + email list) \<times> world"
where
  "search_emails env user_id query limit w =
     (let exact = exact_matches (emails w) user_id query limit in
      if exact \<noteq> [] then (Inr exact, w)
      else
        (case get_embedding env query w of
           (Inl e, w') \<Rightarrow> (Inl e, w')
         | (Inr query_embedding, w') \<Rightarrow>
             (let email_ids = map e_id (pgvector_search e_user_id e_embedding (distance env)
                                          user_id query_embedding limit (emails w'))
              in (Inr (by_ids e_id email_ids (emails w')), w'))))"

definition search_contacts ::
  "env \<Rightarrow> nat \<Rightarrow> string \<Rightarrow> nat \<Rightarrow> world \<Rightarrow> (error + contact list) \<times> world"
where
  "search_contacts env user_id query limit w =
     (case get_embedding env query w of
        (Inl e, w') \<Rightarrow> (Inl e, w')
      | (Inr query_embedding, w') \<Rightarrow>
          (let contact_ids = map c_id (pgvector_search c_user_id c_embedding (distance env)
                                         user_id query_embedding limit (contacts w'))
           in (Inr (by_ids c_id contact_ids (contacts w')), w')))"

subsection \<open>Formatting the context\<close>

definition nl :: string where
  "nl = [CHR 0x0A]"

definition quoted :: "string \<Rightarrow> string" where
  "quoted s = [CHR 0x27] @ s @ [CHR 0x27]"

text \<open>\<open>str(x)\<close> of an optional string inside an f-string, and \<open>x or d\<close>.\<close>

definition py_str :: "string option \<Rightarrow> string" where
  "py_str s = (case s of None \<Rightarrow> ''None'' | Some t \<Rightarrow> t)"

definition or_else :: "string option \<Rightarrow> string \<Rightarrow> string" where
  "or_else s d = (case s of None \<Rightarrow> d | Some t \<Rightarrow> if t = [] then d else t)"

fun join :: "string \<Rightarrow> string list \<Rightarrow> string" where
  "join sep [] = []"
| "join sep [x] = x"
| "join sep (x # y # ys) = x @ sep @ join sep (y # ys)"

text \<open>\<open>email.body_text[:500]\<close> raises \<open>TypeError\<close> when the column is \<open>NULL\<close>.\<close>

definition format_email :: "env \<Rightarrow> email \<Rightarrow> error + string" where
  "format_email env e =
     (case body_text e of
        None \<Rightarrow> Inl (Exn (quoted ''NoneType'' @ '' object is not subscriptable''))
      | Some b \<Rightarrow>
          Inr (nl @ ''From: '' @ py_str (from_email e) @ nl
               @ ''Subject: '' @ py_str (subject e) @ nl
               @ ''Date: '' @ fmt_datetime env (received_at e) @ nl
               @ ''Body: '' @ take 500 b @ ''...'' @ nl))"

definition format_contact :: "contact \<Rightarrow> string" where
  "format_contact c =
     (let name = or_else (Some (strip (or_else (first_name c) [] @ '' '' @ or_else (last_name c) [])))
                   ''Unknown''
      in nl @ ''Name: '' @ name @ nl
         @ ''Email: '' @ py_str (c_email c) @ nl
         @ ''Company: '' @ or_else (company c) ''N/A'' @ nl
         @ ''Notes: '' @ (if truthy (c_notes c) then take 300 (or_else (c_notes c) []) else ''No notes'')
         @ ''...'' @ nl)"

fun format_emails :: "env \<Rightarrow> email list \<Rightarrow> error + string list" where
  "format_emails env [] = Inr []"
| "format_emails env (e # es) =
     (case format_email env e of
        Inl x \<Rightarrow> Inl x
      | Inr s \<Rightarrow> (case format_emails env es of Inl x \<Rightarrow> Inl x | Inr ss \<Rightarrow> Inr (s # ss)))"

definition get_relevant_context ::
  "env \<Rightarrow> nat \<Rightarrow> string \<Rightarrow> nat \<Rightarrow> nat \<Rightarrow> world \<Rightarrow> (error + string) \<times> world"
where
  "get_relevant_context env user_id query email_limit contact_limit w =
     (case search_emails env user_id query email_limit w of
        (Inl e, w1) \<Rightarrow> (Inl e, w1)
      | (Inr es, w1) \<Rightarrow>
          (case search_contacts env user_id query contact_limit w1 of
             (Inl e, w2) \<Rightarrow> (Inl e, w2)
           | (Inr cs, w2) \<Rightarrow>
               (case format_emails env es of
                  Inl e \<Rightarrow> (Inl e, w2)
                | Inr email_parts \<Rightarrow>
                    (let context_parts =
                           (if es \<noteq> [] then ''## Relevant Emails:'' # email_parts else [])
                           @ (if cs \<noteq> [] then (nl @ ''## Relevant Contacts:'') # map format_contact cs
                              else [])
                     in (Inr (if context_parts \<noteq> [] then join nl context_parts
                              else ''No relevant context found.''), w2)))))"

section \<open>Conversation orchestrator and tool dispatcher (\<open>ai_agent.py\<close>)\<close>

subsection \<open>Classification of the trigger type\<close>

text \<open>The fixed prose of the prompts is abridged; their variable parts are kept.\<close>

definition detect_trigger_prompt :: "string \<Rightarrow> string" where
  "detect_trigger_prompt instr =
     ''Analyze this instruction and determine what type of event should trigger it:'' @ nl
     @ [CHR 0x22] @ instr @ [CHR 0x22] @ nl
     @ ''Respond with ONLY one word: email, calendar, hubspot, or all''"

definition valid_types :: "string list" where
  "valid_types = [''email'', ''calendar'', ''hubspot'', ''all'']"

text \<open>
  \<open>detect_trigger_type\<close>: one classification call.  An exception of the call, and the
  \<open>AttributeError\<close> of \<open>.strip()\<close> on a missing content, are caught by the function's own
  \<open>except\<close> and give \<open>"all"\<close>.
\<close>

definition detect_trigger_type :: "env \<Rightarrow> string \<Rightarrow> world \<Rightarrow> string \<times> world" where
  "detect_trigger_type env instr w =
     (let prompt = detect_trigger_prompt instr;
          w' = log_event (ClassifyCall prompt) w
      in case llm_classify env prompt of
           Inl e \<Rightarrow> (''all'', w')
         | Inr None \<Rightarrow> (''all'', w')
         | Inr (Some c) \<Rightarrow>
             (let trigger_type = lower (strip c)
              in if trigger_type \<in> set valid_types then (trigger_type, w') else (''all'', w')))"

subsection \<open>The tool executor\<close>

text \<open>
  Tool arguments are the dictionary \<open>json.loads\<close> returns; the tool schema types every
  argument read here as a string.  \<open>args[k]\<close> raises \<open>KeyError\<close>, whose text is the quoted key.
\<close>

definition arg_req :: "(string \<rightharpoonup> string) \<Rightarrow> string \<Rightarrow> error + string" where
  "arg_req args k = (case args k of None \<Rightarrow> Inl (Exn (quoted k)) | Some v \<Rightarrow> Inr v)"

fun args_req :: "(string \<rightharpoonup> string) \<Rightarrow> string list \<Rightarrow> error + string list" where
  "args_req args [] = Inr []"
| "args_req args (k # ks) =
     (case arg_req args k of
        Inl e \<Rightarrow> Inl e
      | Inr v \<Rightarrow> (case args_req args ks of Inl e \<Rightarrow> Inl e | Inr vs \<Rightarrow> Inr (v # vs)))"

text \<open>\<open>self.google_service\<close>, \<open>self.hubspot_service\<close>: present when the token is truthy.\<close>

definition google_service :: "user \<Rightarrow> string option" where
  "google_service user =
     (if truthy (google_access_token user) then google_access_token user else None)"

definition hubspot_service :: "user \<Rightarrow> string option" where
  "hubspot_service user =
     (if truthy (hubspot_access_token user) then hubspot_access_token user else None)"

text \<open>
  The six provider-backed branches of \<open>_execute_tool\<close> have one shape: return a failure
  when the service is missing, read the required arguments in order (the first missing one
  raises), call the provider, wrap its answer under one key.
\<close>

definition provider_tool ::
  "env \<Rightarrow> string option \<Rightarrow> string \<Rightarrow> string \<Rightarrow> string list \<Rightarrow> string list \<Rightarrow> string
     \<Rightarrow> (string \<rightharpoonup> string) \<Rightarrow> world \<Rightarrow> (error + tool_result) \<times> world"
where
  "provider_tool env service not_connected method required optional key args w =
     (case service of
        None \<Rightarrow> (Inr (ToolFailure not_connected), w)
      | Some token \<Rightarrow>
          (case args_req args required of
             Inl e \<Rightarrow> (Inl e, w)
           | Inr vs \<Rightarrow>
               (let actuals = map Some vs @ map args optional;
                    w' = log_event (CapabilityCall method actuals) w
                in case capability env token method actuals of
                     Inl e \<Rightarrow> (Inl e, w')
                   | Inr r \<Rightarrow> (Inr (ToolSuccess [(key, r)]), w'))))"

text \<open>Primary keys: the next value of the table's sequence; decimal rendering of a number.\<close>

definition next_id :: "nat list \<Rightarrow> nat" where
  "next_id ids = Suc (fold max ids 0)"

fun str_nat :: "nat \<Rightarrow> string" where
  "str_nat n =
     (if n < 10 then [char_of (48 + n)] else str_nat (n div 10) @ [char_of (48 + n mod 10)])"

declare str_nat.simps [simp del]

definition create_task :: "user \<Rightarrow> (string \<rightharpoonup> string) \<Rightarrow> world \<Rightarrow> (error + tool_result) \<times> world" where
  "create_task user args w =
     (case arg_req args ''task_type'' of
        Inl e \<Rightarrow> (Inl e, w)
      | Inr tt \<Rightarrow>
          (case arg_req args ''description'' of
             Inl e \<Rightarrow> (Inl e, w)
           | Inr d \<Rightarrow>
               (case arg_req args ''input_data'' of
                  Inl e \<Rightarrow> (Inl e, w)
                | Inr i \<Rightarrow>
                    (let t = \<lparr>t_id = next_id (map t_id (tasks w)), t_user_id = u_id user,
                              task_type = tt, status = ''pending'', description = d,
                              input_data = i\<rparr>
                     in (Inr (ToolSuccess [(''task_id'', str_nat (t_id t))]),
                         w\<lparr>tasks := tasks w @ [t]\<rparr>)))))"

definition create_ongoing_instruction ::
  "env \<Rightarrow> user \<Rightarrow> (string \<rightharpoonup> string) \<Rightarrow> world \<Rightarrow> (error + tool_result) \<times> world"
where
  "create_ongoing_instruction env user args w =
     (case arg_req args ''instruction'' of
        Inl e \<Rightarrow> (Inl e, w)
      | Inr instruction_text \<Rightarrow>
          (let (trigger, w1) =
                 (case args ''trigger_type'' of
                    None \<Rightarrow> detect_trigger_type env instruction_text w
                  | Some t \<Rightarrow> if t = [] then detect_trigger_type env instruction_text w
                              else (t, w));
               ongoing_instruction =
                 \<lparr>i_id = next_id (map i_id (instructions w1)), i_user_id = u_id user,
                  i_text = instruction_text, trigger_type = Some trigger, is_active = True\<rparr>
           in (Inr (ToolSuccess [(''instruction_id'', str_nat (i_id ongoing_instruction)),
                                 (''instruction'', i_text ongoing_instruction),
                                 (''trigger_type'', trigger)]),
               w1\<lparr>instructions := instructions w1 @ [ongoing_instruction]\<rparr>)))"

definition tool_body ::
  "env \<Rightarrow> user \<Rightarrow> string \<Rightarrow> (string \<rightharpoonup> string) \<Rightarrow> world \<Rightarrow> (error + tool_result) \<times> world"
where
  "tool_body env user function_name function_args w =
     (if function_name = ''search_emails_and_contacts'' then
        (case arg_req function_args ''query'' of
           Inl e \<Rightarrow> (Inl e, w)
         | Inr q \<Rightarrow>
             (case get_relevant_context env (u_id user) q 5 5 w of
                (Inl e, w') \<Rightarrow> (Inl e, w')
              | (Inr context, w') \<Rightarrow> (Inr (ToolSuccess [(''context'', context)]), w')))
      else if function_name = ''send_email'' then
        provider_tool env (google_service user) ''Google not connected'' ''send_email''
          [''to'', ''subject'', ''body''] [''cc''] ''message_id'' function_args w
      else if function_name = ''create_calendar_event'' then
        provider_tool env (google_service user) ''Google not connected'' ''create_calendar_event''
          [''summary'', ''start_time'', ''end_time''] [''attendees'', ''description''] ''event_id''
          function_args w
      else if function_name = ''search_hubspot_contact'' then
        provider_tool env (hubspot_service user) ''HubSpot not connected'' ''search_contacts''
          [''query''] [] ''contacts'' function_args w
      else if function_name = ''create_hubspot_contact'' then
        provider_tool env (hubspot_service user) ''HubSpot not connected'' ''create_contact''
          [''email''] [''first_name'', ''last_name'', ''phone'', ''company''] ''contact''
          function_args w
      else if function_name = ''create_hubspot_note'' then
        provider_tool env (hubspot_service user) ''HubSpot not connected'' ''create_note''
          [''contact_id'', ''note''] [] ''note'' function_args w
      else if function_name = ''get_calendar_events'' then
        provider_tool env (google_service user) ''Google not connected'' ''list_calendar_events''
          [] [''time_min'', ''time_max''] ''events'' function_args w
      else if function_name = ''create_task'' then create_task user function_args w
      else if function_name = ''create_ongoing_instruction'' then
        create_ongoing_instruction env user function_args w
      else (Inr (ToolFailure (''Unknown tool: '' @ function_name)), w))"

text \<open>
  \<open>_execute_tool\<close>: the arguments are parsed before the \<open>try\<close>, so a parse error leaves
  the function as an exception; whatever the body raises becomes a failure result.
\<close>

definition execute_tool ::
  "env \<Rightarrow> user \<Rightarrow> tool_call \<Rightarrow> world \<Rightarrow> (error + tool_result) \<times> world"
where
  "execute_tool env user tc w =
     (let function_name = tc_name tc;
          w0 = log_event (ToolExec function_name) w
      in case json_loads env (tc_arguments tc) of
           Inl e \<Rightarrow> (Inl e, w0)
         | Inr function_args \<Rightarrow>
             (case tool_body env user function_name function_args w0 of
                (Inl (Exn msg), w') \<Rightarrow> (Inr (ToolFailure msg), w')
              | (Inr r, w') \<Rightarrow> (Inr r, w')))"

subsection \<open>The conversation turn\<close>

record chat_result =
  response :: "string option"
  error_text :: "string option"

definition build_system_prompt :: "env \<Rightarrow> user \<Rightarrow> instruction list \<Rightarrow> string" where
  "build_system_prompt env user ongoing_instructions =
     ''You are an AI assistant for a Financial Advisor.'' @ nl
     @ ''CRITICAL: Today is '' @ now_text env @ ''.'' @ nl
     @ ''Available integrations:'' @ nl
     @ (if google_service user \<noteq> None
        then ''- Gmail: Read and send emails'' @ nl @ ''- Google Calendar: View and create events'' @ nl
        else [])
     @ (if hubspot_service user \<noteq> None
        then ''- HubSpot CRM: Search, create, and manage contacts and notes'' @ nl
        else [])
     @ (if ongoing_instructions \<noteq> []
        then nl @ ''## Ongoing Instructions (always follow these):'' @ nl
             @ concat (map (\<lambda>i. ''- '' @ i_text i @ nl) ongoing_instructions)
        else [])
     @ nl @ ''Be helpful, professional, and proactive.'' @ nl"

text \<open>
  The \<open>for tool_call in assistant_message.tool_calls\<close> loop: tools run in the order the
  model gave them, each result is appended under the id of its call; an exception leaving
  \<open>_execute_tool\<close> ends the loop.
\<close>

fun run_tool_calls ::
  "env \<Rightarrow> user \<Rightarrow> tool_call list \<Rightarrow> message list \<Rightarrow> world \<Rightarrow> (error + message list) \<times> world"
where
  "run_tool_calls env user [] messages w = (Inr messages, w)"
| "run_tool_calls env user (tc # tcs) messages w =
     (case execute_tool env user tc w of
        (Inl e, w') \<Rightarrow> (Inl e, w')
      | (Inr result, w') \<Rightarrow>
          run_tool_calls env user tcs
            (messages @ [ToolMsg (tc_id tc) (json_dumps env result)]) w')"

text \<open>The body of the \<open>try\<close> of \<open>AIAgent.chat\<close>.\<close>

definition chat_try ::
  "env \<Rightarrow> user \<Rightarrow> message list \<Rightarrow> world \<Rightarrow> (error + chat_result) \<times> world"
where
  "chat_try env user messages w =
     (let w1 = log_event (ModelCall messages True) w
      in case llm_chat env messages True of
           Inl e \<Rightarrow> (Inl e, w1)
         | Inr assistant_message \<Rightarrow>
             (let messages1 = messages @ [AssistantMsg assistant_message]
              in if tool_calls assistant_message \<noteq> [] then
                   (case run_tool_calls env user (tool_calls assistant_message) messages1 w1 of
                      (Inl e, w2) \<Rightarrow> (Inl e, w2)
                    | (Inr messages2, w2) \<Rightarrow>
                        (let w3 = log_event (ModelCall messages2 False) w2
                         in case llm_chat env messages2 False of
                              Inl e \<Rightarrow> (Inl e, w3)
                            | Inr final_response \<Rightarrow>
                                (Inr \<lparr>response = content final_response, error_text = None\<rparr>, w3)))
                 else (Inr \<lparr>response = content assistant_message, error_text = None\<rparr>, w1)))"

text \<open>
  \<open>AIAgent.chat\<close>.  Loading the active instructions and building the prompt are reads of the
  state; the \<open>try\<close> covers everything after them.  The result type keeps the possibility
  of an exception leaving the function, so that its absence is a theorem.
\<close>

definition initial_messages :: "env \<Rightarrow> user \<Rightarrow> string \<Rightarrow> message list \<Rightarrow> world \<Rightarrow> message list" where
  "initial_messages env user message conversation_history w =
     (let ongoing_instructions =
            filter (\<lambda>i. i_user_id i = u_id user \<and> is_active i) (instructions w);
          system_prompt = build_system_prompt env user ongoing_instructions
      in [SystemMsg system_prompt] @ conversation_history @ [UserMsg message])"

definition error_result :: "string \<Rightarrow> chat_result" where
  "error_result msg = \<lparr>response = None, error_text = Some (''Error processing message: '' @ msg)\<rparr>"

definition chat ::
  "env \<Rightarrow> user \<Rightarrow> string \<Rightarrow> message list \<Rightarrow> world \<Rightarrow> (error + chat_result) \<times> world"
where
  "chat env user message conversation_history w =
     (let messages = initial_messages env user message conversation_history w
      in case chat_try env user messages w of
           (Inl (Exn msg), w') \<Rightarrow> (Inr (error_result msg), w')
         | (Inr r, w') \<Rightarrow> (Inr r, w'))"

subsection \<open>The trigger evaluator\<close>

record trigger_data =
  td_email_id :: string
  td_from :: string
  td_subject :: string
  td_body :: string

definition matching_instructions :: "nat \<Rightarrow> string \<Rightarrow> instruction list \<Rightarrow> instruction list" where
  "matching_instructions user_id trigger rows =
     filter (\<lambda>i. i_user_id i = user_id \<and> is_active i \<and>
                 (trigger_type i = Some trigger \<or> trigger_type i = Some ''all'')) rows"

definition trigger_prompt :: "env \<Rightarrow> string \<Rightarrow> trigger_data \<Rightarrow> instruction list \<Rightarrow> string" where
  "trigger_prompt env trigger data instrs =
     ''CRITICAL: Today is '' @ now_text env @ ''.'' @ nl @ nl
     @ ''A '' @ trigger @ '' event occurred:'' @ nl
     @ ''email_id: '' @ td_email_id data @ nl
     @ ''from: '' @ td_from data @ nl
     @ ''subject: '' @ td_subject data @ nl
     @ ''body: '' @ td_body data @ nl @ nl
     @ ''You have these ongoing instructions:'' @ nl
     @ concat (map (\<lambda>i. ''- '' @ i_text i @ nl) instrs)
     @ nl @ ''Should you take any action? Use tools if needed.''"

definition process_ongoing_instructions ::
  "env \<Rightarrow> user \<Rightarrow> string \<Rightarrow> trigger_data \<Rightarrow> world \<Rightarrow> (error + string option) \<times> world"
where
  "process_ongoing_instructions env user trigger data w =
     (let w0 = log_event (TriggerEval (u_id user) trigger (td_email_id data)) w;
          instrs = matching_instructions (u_id user) trigger (instructions w0)
      in if instrs = [] then (Inr None, w0)
         else
           (case chat env user (trigger_prompt env trigger data instrs) [] w0 of
              (Inl e, w') \<Rightarrow> (Inl e, w')
            | (Inr result, w') \<Rightarrow> (Inr (response result), w')))"

section \<open>Ingestion and synchronisation (\<open>routers/integrations.py\<close>)\<close>

subsection \<open>SyncState\<close>

text \<open>
  The endpoint's write: \<open>if user.id not in sync_status: sync_status[user.id] = {}\<close>, then the
  entry of the source is replaced by a fresh \<open>{"syncing": True, "started_at": now}\<close>.
\<close>

definition mark_started :: "source \<Rightarrow> nat \<Rightarrow> env \<Rightarrow> sync_state \<Rightarrow> sync_state" where
  "mark_started src user_id env ss =
     ss(user_id \<mapsto>
        (case ss user_id of None \<Rightarrow> Map.empty | Some m \<Rightarrow> m)
          (src \<mapsto> \<lparr>syncing = True, started_at = utcnow_iso env, completed_at = None,
                    imported_count = None, sync_error = None\<rparr>))"

text \<open>
  The writes at the end of a run, both under
  \<open>if user_id in sync_status and "gmail" in sync_status[user_id]\<close>.
\<close>

definition mark_completed :: "source \<Rightarrow> nat \<Rightarrow> nat \<Rightarrow> env \<Rightarrow> sync_state \<Rightarrow> sync_state" where
  "mark_completed src user_id n env ss =
     (case ss user_id of
        None \<Rightarrow> ss
      | Some m \<Rightarrow>
          (case m src of
             None \<Rightarrow> ss
           | Some en \<Rightarrow>
               ss(user_id \<mapsto> m(src \<mapsto> en\<lparr>syncing := False,
                                              completed_at := Some (utcnow_iso env),
                                              imported_count := Some n\<rparr>))))"

definition mark_failed :: "source \<Rightarrow> nat \<Rightarrow> string \<Rightarrow> env \<Rightarrow> sync_state \<Rightarrow> sync_state" where
  "mark_failed src user_id msg env ss =
     (case ss user_id of
        None \<Rightarrow> ss
      | Some m \<Rightarrow>
          (case m src of
             None \<Rightarrow> ss
           | Some en \<Rightarrow>
               ss(user_id \<mapsto> m(src \<mapsto> en\<lparr>syncing := False,
                                              sync_error := Some msg,
                                              completed_at := Some (utcnow_iso env)\<rparr>))))"

text \<open>\<open>sync_status[user_id].get("gmail", {}).get("syncing", False)\<close> behind \<open>user_id in sync_status\<close>.\<close>

definition is_syncing :: "source \<Rightarrow> nat \<Rightarrow> sync_state \<Rightarrow> bool" where
  "is_syncing src user_id ss =
     (case ss user_id of
        None \<Rightarrow> False
      | Some m \<Rightarrow> (case m src of None \<Rightarrow> False | Some en \<Rightarrow> syncing en))"

subsection \<open>The full-sync endpoints\<close>

text \<open>
  The endpoints receive the authenticated user.  They answer with a message or an HTTP
  error, write SyncState and hand a background task to the framework.
\<close>

datatype http_error = HTTPException nat string

datatype background_task = SyncGmailBackground nat | SyncHubspotBackground nat

definition sync_gmail ::
  "env \<Rightarrow> user \<Rightarrow> world \<Rightarrow> (http_error + string) \<times> world \<times> background_task list"
where
  "sync_gmail env user w =
     (if \<not> truthy (google_access_token user)
      then (Inl (HTTPException 400 ''Google not connected''), w, [])
      else (Inr ''Gmail sync started'',
            w\<lparr>sync_status := mark_started Gmail (u_id user) env (sync_status w)\<rparr>,
            [SyncGmailBackground (u_id user)]))"

definition sync_hubspot ::
  "env \<Rightarrow> user \<Rightarrow> world \<Rightarrow> (http_error + string) \<times> world \<times> background_task list"
where
  "sync_hubspot env user w =
     (if \<not> truthy (hubspot_access_token user)
      then (Inl (HTTPException 400 ''HubSpot not connected''), w, [])
      else (Inr ''HubSpot sync started'',
            w\<lparr>sync_status := mark_started Hubspot (u_id user) env (sync_status w)\<rparr>,
            [SyncHubspotBackground (u_id user)]))"

subsection \<open>Persisting one new email\<close>

text \<open>\<open>db.query(User).filter(User.id == user_id).first()\<close>.\<close>

definition find_user :: "nat \<Rightarrow> world \<Rightarrow> user option" where
  "find_user user_id w = find (\<lambda>u. u_id u = user_id) (users w)"

text \<open>
  \<open>db.add(email_obj); db.commit()\<close>.  The column \<open>gmail_id\<close> is declared \<open>unique=True\<close>
  (\<open>models.py\<close>, and the unique index \<open>ix_emails_gmail_id\<close> of the migration): the commit raises
  \<open>IntegrityError\<close> when any row, of any user, already carries the identifier.
\<close>

definition integrity_error :: "string \<Rightarrow> string" where
  "integrity_error ix = ''IntegrityError: duplicate key value violates unique constraint '' @ ix"

definition insert_email :: "email \<Rightarrow> world \<Rightarrow> error + world" where
  "insert_email e w =
     (if gmail_id e \<in> set (map gmail_id (emails w))
      then Inl (Exn (integrity_error ''ix_emails_gmail_id''))
      else Inr (w\<lparr>emails := emails w @ [e]\<rparr>))"

definition set_email_embedding :: "nat \<Rightarrow> vec \<Rightarrow> world \<Rightarrow> world" where
  "set_email_embedding eid v w =
     w\<lparr>emails := map (\<lambda>e. if e_id e = eid then e\<lparr>e_embedding := Some v\<rparr> else e) (emails w)\<rparr>"

definition exists_email :: "nat \<Rightarrow> string \<Rightarrow> world \<Rightarrow> bool" where
  "exists_email user_id gid w =
     (\<exists>e \<in> set (emails w). e_user_id e = user_id \<and> gmail_id e = gid)"

text \<open>
  The tail of the loop body that \<open>sync_gmail_background\<close> and \<open>poll_new_emails\<close> share word
  for word: create the row, commit, embed the text unless it is blank, commit, call the
  trigger evaluator.  (The counter is incremented between the embedding and the evaluator;
  it is read only after the loop, so the loops below increment it after this step.)
\<close>

definition import_email ::
  "env \<Rightarrow> user \<Rightarrow> string \<Rightarrow> parsed_email \<Rightarrow> world \<Rightarrow> (error + unit) \<times> world"
where
  "import_email env user gid parsed w =
     (let email_obj =
            \<lparr>e_id = next_id (map e_id (emails w)), e_user_id = u_id user, gmail_id = gid,
             thread_id = p_thread_id parsed, subject = Some (p_subject parsed),
             from_email = Some (p_from_email parsed), to_emails = p_to_emails parsed,
             cc_emails = p_cc_emails parsed, body_text = Some (p_body_text parsed),
             body_html = Some (p_body_html parsed), received_at = p_received_at parsed,
             e_embedding = None\<rparr>
      in case insert_email email_obj w of
           Inl e \<Rightarrow> (Inl e, w)
         | Inr w1 \<Rightarrow>
             (let text_content = p_subject parsed @ '' '' @ p_body_text parsed
              in case (if strip text_content \<noteq> [] then
                         (case get_embedding env text_content w1 of
                            (Inl e, w2) \<Rightarrow> (Inl e, w2)
                          | (Inr v, w2) \<Rightarrow> (Inr (), set_email_embedding (e_id email_obj) v w2))
                       else (Inr (), w1)) of
                   (Inl e, w2) \<Rightarrow> (Inl e, w2)
                 | (Inr u, w2) \<Rightarrow>
                     (case process_ongoing_instructions env user ''email''
                             \<lparr>td_email_id = gid, td_from = p_from_email parsed,
                              td_subject = p_subject parsed, td_body = p_body_text parsed\<rparr> w2 of
                        (Inl e, w3) \<Rightarrow> (Inl e, w3)
                      | (Inr r, w3) \<Rightarrow> (Inr (), w3))))"

subsection \<open>Full sync of Gmail\<close>

text \<open>The \<open>for msg in messages\<close> loop; the number is \<open>imported_count\<close>.\<close>

fun sync_gmail_messages ::
  "env \<Rightarrow> user \<Rightarrow> string \<Rightarrow> string list \<Rightarrow> nat \<Rightarrow> world \<Rightarrow> (error + nat) \<times> world"
where
  "sync_gmail_messages env user token [] n w = (Inr n, w)"
| "sync_gmail_messages env user token (gid # msgs) n w =
     (if exists_email (u_id user) gid w then sync_gmail_messages env user token msgs n w
      else
        (let w1 = log_event (GmailGet gid) w
         in case gmail_fetch env token gid of
              Inl e \<Rightarrow> (Inl e, w1)
            | Inr parsed \<Rightarrow>
                (case import_email env user gid parsed w1 of
                   (Inl e, w2) \<Rightarrow> (Inl e, w2)
                 | (Inr u, w2) \<Rightarrow> sync_gmail_messages env user token msgs (Suc n) w2)))"

text \<open>
  The \<open>while True\<close> loop over the pages.  The provider decides when the listing ends, so the
  loop is given fuel: \<open>None\<close> means that it was still running when the fuel ran out.
\<close>

fun sync_gmail_pages ::
  "nat \<Rightarrow> env \<Rightarrow> user \<Rightarrow> string \<Rightarrow> string option \<Rightarrow> nat \<Rightarrow> world
     \<Rightarrow> ((error + nat) \<times> world) option"
where
  "sync_gmail_pages 0 env user token page_token n w = None"
| "sync_gmail_pages (Suc fuel) env user token page_token n w =
     (let w1 = log_event (GmailList None page_token) w
      in case gmail_list env token None page_token of
           Inl e \<Rightarrow> Some (Inl e, w1)
         | Inr (messages, next_token) \<Rightarrow>
             (case sync_gmail_messages env user token messages n w1 of
                (Inl e, w2) \<Rightarrow> Some (Inl e, w2)
              | (Inr n', w2) \<Rightarrow>
                  if truthy next_token
                  then sync_gmail_pages fuel env user token next_token n' w2
                  else Some (Inr n', w2)))"

text \<open>
  \<open>sync_gmail_background\<close>.  The early return, the success path and the handler of the inner
  \<open>try\<close>; the \<open>finally\<close> closes the database session, which holds nothing uncommitted here.
\<close>

definition sync_gmail_background :: "nat \<Rightarrow> env \<Rightarrow> nat \<Rightarrow> world \<Rightarrow> world option" where
  "sync_gmail_background fuel env user_id w =
     (case find_user user_id w of
        None \<Rightarrow> Some w
      | Some user \<Rightarrow>
          (case google_service user of
             None \<Rightarrow> Some w
           | Some token \<Rightarrow>
               (case sync_gmail_pages fuel env user token None 0 w of
                  None \<Rightarrow> None
                | Some (Inr imported, w1) \<Rightarrow>
                    Some (w1\<lparr>sync_status :=
                                mark_completed Gmail user_id imported env (sync_status w1)\<rparr>)
                | Some (Inl (Exn msg), w1) \<Rightarrow>
                    Some (w1\<lparr>sync_status :=
                                mark_failed Gmail user_id msg env (sync_status w1)\<rparr>))))"

subsection \<open>Incremental poll of Gmail\<close>

definition str_int :: "int \<Rightarrow> string" where
  "str_int i = (if i < 0 then ''-'' @ str_nat (nat (- i)) else str_nat (nat i))"

text \<open>
  The loop body of \<open>poll_new_emails\<close>: as in the full sync, with the second look at the
  date after the fetch (a message older than the cutoff is left out).
\<close>

fun poll_messages ::
  "env \<Rightarrow> user \<Rightarrow> string \<Rightarrow> int \<Rightarrow> string list \<Rightarrow> nat \<Rightarrow> world \<Rightarrow> (error + nat) \<times> world"
where
  "poll_messages env user token cutoff [] n w = (Inr n, w)"
| "poll_messages env user token cutoff (gid # msgs) n w =
     (if exists_email (u_id user) gid w then poll_messages env user token cutoff msgs n w
      else
        (let w1 = log_event (GmailGet gid) w
         in case gmail_fetch env token gid of
              Inl e \<Rightarrow> (Inl e, w1)
            | Inr parsed \<Rightarrow>
                if (case p_received_at parsed of None \<Rightarrow> False | Some t \<Rightarrow> t < cutoff)
                then poll_messages env user token cutoff msgs n w1
                else
                  (case import_email env user gid parsed w1 of
                     (Inl e, w2) \<Rightarrow> (Inl e, w2)
                   | (Inr u, w2) \<Rightarrow> poll_messages env user token cutoff msgs (Suc n) w2)))"

fun poll_pages ::
  "nat \<Rightarrow> env \<Rightarrow> user \<Rightarrow> string \<Rightarrow> string \<Rightarrow> int \<Rightarrow> string option \<Rightarrow> nat \<Rightarrow> world
     \<Rightarrow> ((error + nat) \<times> world) option"
where
  "poll_pages 0 env user token query cutoff page_token n w = None"
| "poll_pages (Suc fuel) env user token query cutoff page_token n w =
     (let w1 = log_event (GmailList (Some query) page_token) w
      in case gmail_list env token (Some query) page_token of
           Inl e \<Rightarrow> Some (Inl e, w1)
         | Inr (messages, next_token) \<Rightarrow>
             if messages = [] then Some (Inr n, w1)
             else
               (case poll_messages env user token cutoff messages n w1 of
                  (Inl e, w2) \<Rightarrow> Some (Inl e, w2)
                | (Inr n', w2) \<Rightarrow>
                    if truthy next_token
                    then poll_pages fuel env user token query cutoff next_token n' w2
                    else Some (Inr n', w2)))"

text \<open>
  \<open>poll_new_emails\<close>: the user check, the SyncState check, then the loop inside one
  \<open>try\<close> whose handler only prints.  The function never writes SyncState.
\<close>

definition poll_new_emails :: "nat \<Rightarrow> env \<Rightarrow> nat \<Rightarrow> world \<Rightarrow> world option" where
  "poll_new_emails fuel env user_id w =
     (case find_user user_id w of
        None \<Rightarrow> Some w
      | Some user \<Rightarrow>
          (case google_service user of
             None \<Rightarrow> Some w
           | Some token \<Rightarrow>
               if is_syncing Gmail user_id (sync_status w) then Some w
               else
                 (let cutoff_time = utcnow env - 600;
                      query = ''after:'' @ str_int cutoff_time
                  in case poll_pages fuel env user token query cutoff_time None 0 w of
                       None \<Rightarrow> None
                     | Some (r, w1) \<Rightarrow> Some w1)))"

subsection \<open>Full sync of HubSpot\<close>

text \<open>
  The contacts loop changes rows it has loaded and commits only when it creates one.  The
  session's view of the table (\<open>view\<close>) is therefore kept apart from the committed table
  (\<open>contacts\<close> of the world): an update goes to the view, a commit copies the view, closing the
  session drops it.  \<open>hubspot_id\<close> is unique over the whole table, as \<open>gmail_id\<close> is.
\<close>

definition find_contact :: "nat \<Rightarrow> string \<Rightarrow> contact list \<Rightarrow> contact option" where
  "find_contact user_id hid view = find (\<lambda>c. c_user_id c = user_id \<and> hubspot_id c = hid) view"

definition update_existing :: "contact \<Rightarrow> hs_contact \<Rightarrow> contact list \<Rightarrow> contact list" where
  "update_existing existing contact_data view =
     map (\<lambda>c. if c_id c = c_id existing
               then c\<lparr>c_email := hs_email contact_data, first_name := hs_firstname contact_data,
                      last_name := hs_lastname contact_data, phone := hs_phone contact_data,
                      company := hs_company contact_data, raw_data := Some contact_data\<rparr>
               else c) view"

definition commit_new_contact :: "contact \<Rightarrow> contact list \<Rightarrow> world \<Rightarrow> error + contact list \<times> world" where
  "commit_new_contact c view w =
     (if hubspot_id c \<in> set (map hubspot_id view)
      then Inl (Exn (integrity_error ''ix_contacts_hubspot_id''))
      else Inr (view @ [c], w\<lparr>contacts := view @ [c]\<rparr>))"

definition set_contact_embedding :: "nat \<Rightarrow> vec \<Rightarrow> contact list \<Rightarrow> contact list" where
  "set_contact_embedding cid v view =
     map (\<lambda>c. if c_id c = cid then c\<lparr>c_embedding := Some v\<rparr> else c) view"

text \<open>A property that HubSpot does not send reads as the empty string in the text to embed.\<close>

definition contact_text :: "hs_contact \<Rightarrow> string \<Rightarrow> string" where
  "contact_text contact_data notes_text =
     or_else (hs_firstname contact_data) [] @ '' '' @ or_else (hs_lastname contact_data) [] @ '' ''
     @ or_else (hs_email contact_data) [] @ '' '' @ notes_text"

fun sync_hubspot_contacts ::
  "env \<Rightarrow> user \<Rightarrow> string \<Rightarrow> hs_contact list \<Rightarrow> nat \<Rightarrow> contact list \<Rightarrow> world
     \<Rightarrow> (error + nat \<times> contact list) \<times> world"
where
  "sync_hubspot_contacts env user token [] n view w = (Inr (n, view), w)"
| "sync_hubspot_contacts env user token (contact_data # rest) n view w =
     (case find_contact (u_id user) (hs_id contact_data) view of
        Some existing \<Rightarrow>
          sync_hubspot_contacts env user token rest n
            (update_existing existing contact_data view) w
      | None \<Rightarrow>
          (let w1 = log_event (HubspotNotes (hs_id contact_data)) w
           in case hubspot_notes env token (hs_id contact_data) of
                Inl e \<Rightarrow> (Inl e, w1)
              | Inr notes_data \<Rightarrow>
                  (let notes_text = join nl notes_data;
                       contact_obj =
                         \<lparr>c_id = next_id (map c_id view), c_user_id = u_id user,
                          hubspot_id = hs_id contact_data, c_email = hs_email contact_data,
                          first_name = hs_firstname contact_data,
                          last_name = hs_lastname contact_data, phone = hs_phone contact_data,
                          company = hs_company contact_data, c_notes = Some notes_text,
                          raw_data = Some contact_data, c_embedding = None\<rparr>
                   in case commit_new_contact contact_obj view w1 of
                        Inl e \<Rightarrow> (Inl e, w1)
                      | Inr (view1, w2) \<Rightarrow>
                          (let text_content = contact_text contact_data notes_text
                           in if strip text_content \<noteq> [] then
                                (case get_embedding env text_content w2 of
                                   (Inl e, w3) \<Rightarrow> (Inl e, w3)
                                 | (Inr v, w3) \<Rightarrow>
                                     (let view2 = set_contact_embedding (c_id contact_obj) v view1
                                      in sync_hubspot_contacts env user token rest (Suc n) view2
                                           (w3\<lparr>contacts := view2\<rparr>)))
                              else sync_hubspot_contacts env user token rest (Suc n) view1 w2))))"

fun sync_hubspot_pages ::
  "nat \<Rightarrow> env \<Rightarrow> user \<Rightarrow> string \<Rightarrow> string option \<Rightarrow> nat \<Rightarrow> contact list \<Rightarrow> world
     \<Rightarrow> ((error + nat) \<times> world) option"
where
  "sync_hubspot_pages 0 env user token after n view w = None"
| "sync_hubspot_pages (Suc fuel) env user token after n view w =
     (let w1 = log_event (HubspotList after) w
      in case hubspot_list env token after of
           Inl e \<Rightarrow> Some (Inl e, w1)
         | Inr (results, next_after) \<Rightarrow>
             (case sync_hubspot_contacts env user token results n view w1 of
                (Inl e, w2) \<Rightarrow> Some (Inl e, w2)
              | (Inr (n', view'), w2) \<Rightarrow>
                  if truthy next_after
                  then sync_hubspot_pages fuel env user token next_after n' view' w2
                  else Some (Inr n', w2)))"

definition sync_hubspot_background :: "nat \<Rightarrow> env \<Rightarrow> nat \<Rightarrow> world \<Rightarrow> world option" where
  "sync_hubspot_background fuel env user_id w =
     (case find_user user_id w of
        None \<Rightarrow> Some w
      | Some user \<Rightarrow>
          (case hubspot_service user of
             None \<Rightarrow> Some w
           | Some token \<Rightarrow>
               (case sync_hubspot_pages fuel env user token None 0 (contacts w) w of
                  None \<Rightarrow> None
                | Some (Inr imported, w1) \<Rightarrow>
                    Some (w1\<lparr>sync_status :=
                                mark_completed Hubspot user_id imported env (sync_status w1)\<rparr>)
                | Some (Inl (Exn msg), w1) \<Rightarrow>
                    Some (w1\<lparr>sync_status :=
                                mark_failed Hubspot user_id msg env (sync_status w1)\<rparr>))))"

section \<open>Vocabulary of the statements\<close>

subsection \<open>Frames\<close>

text \<open>
  What a conversation turn, a tool or the trigger evaluator can change: the tasks, the
  standing instructions and the end of the trace.  Users, emails, contacts and SyncState stay.
  A Gmail run moreover appends emails; a HubSpot run touches the contacts only.
\<close>

definition agent_frame :: "world \<Rightarrow> world \<Rightarrow> bool" where
  "agent_frame w w' \<longleftrightarrow>
     users w' = users w \<and> emails w' = emails w \<and> contacts w' = contacts w \<and>
     sync_status w' = sync_status w \<and> prefix (trace w) (trace w')"

definition sync_frame :: "world \<Rightarrow> world \<Rightarrow> bool" where
  "sync_frame w w' \<longleftrightarrow>
     users w' = users w \<and> contacts w' = contacts w \<and> sync_status w' = sync_status w \<and>
     prefix (emails w) (emails w') \<and> prefix (trace w) (trace w')"

definition hs_frame :: "world \<Rightarrow> world \<Rightarrow> bool" where
  "hs_frame w w' \<longleftrightarrow>
     users w' = users w \<and> emails w' = emails w \<and> sync_status w' = sync_status w \<and>
     instructions w' = instructions w \<and> tasks w' = tasks w \<and> prefix (trace w) (trace w')"

subsection \<open>Retrieval\<close>

text \<open>
  The rows a semantic search may return and what it is to be the \<open>k\<close> nearest of them;
  a query without \<open>LIKE\<close> metacharacters; a sender that contains the query; the order
  of \<open>ORDER BY received_at DESC\<close>.
\<close>

definition row_distance :: "('r \<Rightarrow> vec option) \<Rightarrow> (vec \<Rightarrow> vec \<Rightarrow> real) \<Rightarrow> vec \<Rightarrow> 'r \<Rightarrow> real" where
  "row_distance emb_of dst q r = (case emb_of r of None \<Rightarrow> 0 | Some v \<Rightarrow> dst v q)"

definition eligible :: "('r \<Rightarrow> nat) \<Rightarrow> ('r \<Rightarrow> vec option) \<Rightarrow> nat \<Rightarrow> 'r list \<Rightarrow> 'r list" where
  "eligible uid_of emb_of user_id rows =
     filter (\<lambda>r. uid_of r = user_id \<and> emb_of r \<noteq> None) rows"

definition is_top_k :: "('r \<Rightarrow> real) \<Rightarrow> nat \<Rightarrow> 'r list \<Rightarrow> 'r list \<Rightarrow> bool" where
  "is_top_k f k cands rs \<longleftrightarrow>
     set rs \<subseteq> set cands \<and> distinct rs \<and> length rs = min k (length cands) \<and>
     sorted (map f rs) \<and> (\<forall>x \<in> set cands - set rs. \<forall>t \<in> set rs. f t \<le> f x)"

definition plain :: "string \<Rightarrow> bool" where
  "plain s = list_all (\<lambda>c. c \<noteq> CHR ''%'' \<and> c \<noteq> CHR ''_'' \<and> c \<noteq> CHR 0x5C) s"

definition sender_contains :: "string \<Rightarrow> email \<Rightarrow> bool" where
  "sender_contains q e =
     (case from_email e of
        None \<Rightarrow> False
      | Some s \<Rightarrow> sublist q (lower s) \<or> sublist (remove_spaces q) (lower s))"

definition not_older :: "email \<Rightarrow> email \<Rightarrow> bool" where
  "not_older a b =
     (case received_at a of
        None \<Rightarrow> True
      | Some x \<Rightarrow> (case received_at b of None \<Rightarrow> False | Some y \<Rightarrow> y \<le> x))"

subsection \<open>Agent\<close>

text \<open>The trigger type that the classifier's answer stands for.\<close>

definition classified :: "env \<Rightarrow> string \<Rightarrow> string" where
  "classified env instr =
     (case llm_classify env (detect_trigger_prompt instr) of
        Inr (Some c) \<Rightarrow> if lower (strip c) \<in> set valid_types then lower (strip c) else ''all''
      | _ \<Rightarrow> ''all'')"

subsection \<open>Synchronisation\<close>

text \<open>
  The dedup key of a contact, the SyncState entry of a user and source, and the trace
  events that are page listings.
\<close>

definition exists_contact :: "nat \<Rightarrow> string \<Rightarrow> contact list \<Rightarrow> bool" where
  "exists_contact uid hid view = (\<exists>c \<in> set view. c_user_id c = uid \<and> hubspot_id c = hid)"

definition contact_keys :: "contact list \<Rightarrow> (nat \<times> string) list" where
  "contact_keys view = map (\<lambda>c. (c_user_id c, hubspot_id c)) view"

definition entry_of :: "source \<Rightarrow> nat \<Rightarrow> sync_state \<Rightarrow> sync_entry option" where
  "entry_of src user_id ss = (case ss user_id of None \<Rightarrow> None | Some m \<Rightarrow> m src)"

definition is_listing :: "event \<Rightarrow> bool" where
  "is_listing ev = (case ev of GmailList q pt \<Rightarrow> True | HubspotList a \<Rightarrow> True | _ \<Rightarrow> False)"

section \<open>Concrete scenarios\<close>

text \<open>Small worlds and providers on which the theorems below are evaluated.\<close>

definition user0 :: user where
  "user0 = \<lparr>u_id = 1, google_access_token = Some ''tok'', hubspot_access_token = None\<rparr>"

definition world0 :: world where
  "world0 = \<lparr>users = [user0], emails = [], contacts = [], instructions = [], tasks = [],
             sync_status = Map.empty, trace = []\<rparr>"

definition parsed0 :: parsed_email where
  "parsed0 = \<lparr>p_thread_id = None, p_subject = ''Re: meeting'', p_from_email = ''alice@x.com'',
              p_to_emails = [], p_cc_emails = [], p_body_text = ''hello'', p_body_html = [],
              p_received_at = Some 99990\<rparr>"

definition env0 :: env where
  "env0 = \<lparr>embed = (\<lambda>t. Inr [1]),
           distance = (\<lambda>a b. \<bar>sum_list a - sum_list b\<bar>),
           fmt_datetime = (\<lambda>t. ''date''),
           utcnow_iso = ''2026-01-01T00:00:00'',
           utcnow = 100000,
           now_text = ''2026-01-01 (Thursday) at 00:00:00 UTC'',
           llm_chat = (\<lambda>ms tools. Inr \<lparr>content = Some ''ok'', tool_calls = []\<rparr>),
           llm_classify = (\<lambda>p. Inr (Some '' HubSpot '')),
           json_loads = (\<lambda>s. if s = ''{'' then Inl (Exn ''Expecting property name'')
                               else Inr [''instruction'' \<mapsto> s]),
           json_dumps = (\<lambda>r. case r of ToolSuccess kv \<Rightarrow> ''ok'' | ToolFailure m \<Rightarrow> m),
           gmail_list = (\<lambda>tok q pt. Inr ([], None)),
           gmail_fetch = (\<lambda>tok gid. Inr parsed0),
           hubspot_list = (\<lambda>tok after. Inr ([], None)),
           hubspot_notes = (\<lambda>tok hid. Inr []),
           capability = (\<lambda>tok m actuals. Inr ''id-1'')\<rparr>"

definition env_down :: env where
  "env_down = env0\<lparr>llm_chat := (\<lambda>ms tools. Inl (Exn ''rate limit''))\<rparr>"

definition cal_instr :: instruction where
  "cal_instr = \<lparr>i_id = 1, i_user_id = 1, i_text = ''Prepare notes before each meeting'',
                trigger_type = Some ''calendar'', is_active = True\<rparr>"

definition all_instr :: instruction where
  "all_instr = \<lparr>i_id = 2, i_user_id = 1, i_text = ''Log every event'',
                trigger_type = Some ''all'', is_active = True\<rparr>"

definition data0 :: trigger_data where
  "data0 = \<lparr>td_email_id = ''m1'', td_from = ''alice@x.com'', td_subject = ''Re: meeting'',
            td_body = ''hello''\<rparr>"

definition env_tools :: env where
  "env_tools = env0\<lparr>llm_chat := (\<lambda>ms tools.
       if tools then Inr \<lparr>content = None,
                          tool_calls = [\<lparr>tc_id = ''c1'', tc_name = ''get_calendar_events'', tc_arguments = ''{}''\<rparr>,
                                        \<lparr>tc_id = ''c2'', tc_name = ''send_email'', tc_arguments = ''{''\<rparr>,
                                        \<lparr>tc_id = ''c3'', tc_name = ''create_task'', tc_arguments = ''{}''\<rparr>]\<rparr>
       else Inr \<lparr>content = Some ''done'', tool_calls = []\<rparr>)\<rparr>"

definition tc_instr :: tool_call where
  "tc_instr = \<lparr>tc_id = ''c1'', tc_name = ''create_ongoing_instruction'',
               tc_arguments = ''whenever I get a CRM contact update, notify me''\<rparr>"

definition mk_email :: "nat \<Rightarrow> nat \<Rightarrow> string \<Rightarrow> string \<Rightarrow> int option \<Rightarrow> vec option \<Rightarrow> email" where
  "mk_email i u gid sender date emb =
     \<lparr>e_id = i, e_user_id = u, gmail_id = gid, thread_id = None, subject = Some ''Re: meeting'',
      from_email = Some sender, to_emails = [], cc_emails = [], body_text = Some ''hello'',
      body_html = None, received_at = date, e_embedding = emb\<rparr>"

definition mail0 :: "email list" where
  "mail0 = [mk_email 1 1 ''g1'' ''Alice <alice@x.com>'' (Some 100) (Some [1]),
            mk_email 2 1 ''g2'' ''bob@y.org'' (Some 300) (Some [4]),
            mk_email 3 1 ''g3'' ''carol@z.net'' (Some 200) None,
            mk_email 4 2 ''g4'' ''alice@x.com'' (Some 400) (Some [1]),
            mk_email 5 1 ''g5'' ''ALICE@x.com'' (Some 500) (Some [9])]"

definition world_mail :: world where
  "world_mail = world0\<lparr>emails := mail0\<rparr>"

definition busy_entry :: sync_entry where
  "busy_entry = \<lparr>syncing = True, started_at = ''2025-12-31T23:59:00'', completed_at = None,
                 imported_count = None, sync_error = None\<rparr>"

definition world_busy :: world where
  "world_busy = world0\<lparr>sync_status := [1 \<mapsto> [Gmail \<mapsto> busy_entry]]\<rparr>"

definition env_flaky :: env where
  "env_flaky = env0\<lparr>gmail_list := (\<lambda>tok q pt.
       if pt = None then Inr ([''a''], Some ''p2'') else Inl (Exn ''503 Service Unavailable''))\<rparr>"

definition idle_entry :: sync_entry where
  "idle_entry = \<lparr>syncing = False, started_at = ''2025-12-31T23:00:00'',
                 completed_at = Some ''2025-12-31T23:05:00'', imported_count = Some 0,
                 sync_error = None\<rparr>"

definition world_idle :: world where
  "world_idle = world0\<lparr>sync_status := [1 \<mapsto> [Gmail \<mapsto> idle_entry]]\<rparr>"

definition env_down_gmail :: env where
  "env_down_gmail = env0\<lparr>gmail_list := (\<lambda>tok q pt. Inl (Exn ''503 Service Unavailable''))\<rparr>"

definition user2 :: user where
  "user2 = \<lparr>u_id = 2, google_access_token = Some ''tok2'', hubspot_access_token = Some ''hub2''\<rparr>"

definition hs0 :: hs_contact where
  "hs0 = \<lparr>hs_id = ''h1'', hs_email = Some ''bob@y.org'', hs_firstname = Some ''Bob'',
          hs_lastname = None, hs_phone = None, hs_company = Some ''Y''\<rparr>"

definition contact0 :: contact where
  "contact0 = \<lparr>c_id = 1, c_user_id = 1, hubspot_id = ''h1'', c_email = Some ''bob@y.org'',
               first_name = Some ''Bob'', last_name = None, phone = None, company = Some ''Y'',
               c_notes = Some [], raw_data = Some hs0, c_embedding = Some [1]\<rparr>"

definition world_shared :: world where
  "world_shared = world0\<lparr>users := [user0, user2],
                         emails := [mk_email 1 2 ''g1'' ''alice@x.com'' (Some 100) None],
                         contacts := [contact0],
                         sync_status := [1 \<mapsto> [Gmail \<mapsto> busy_entry],
                                         2 \<mapsto> [Hubspot \<mapsto> busy_entry]]\<rparr>"

definition env_shared :: env where
  "env_shared = env0\<lparr>gmail_list := (\<lambda>tok q pt. Inr ([''g1'', ''g2''], None)),
                      hubspot_list := (\<lambda>tok after. Inr ([hs0], None))\<rparr>"

definition hs_changed :: hs_contact where
  "hs_changed = \<lparr>hs_id = ''h1'', hs_email = Some ''bob@new.org'', hs_firstname = Some ''Bob'',
                 hs_lastname = None, hs_phone = None, hs_company = Some ''New Co''\<rparr>"

definition hs_new :: hs_contact where
  "hs_new = \<lparr>hs_id = ''h2'', hs_email = Some ''carol@z.net'', hs_firstname = None,
             hs_lastname = None, hs_phone = None, hs_company = None\<rparr>"

definition contact_old :: contact where
  "contact_old = \<lparr>c_id = 1, c_user_id = 2, hubspot_id = ''h1'', c_email = Some ''bob@y.org'',
                  first_name = Some ''Bob'', last_name = None, phone = None,
                  company = Some ''Y'', c_notes = Some [], raw_data = None,
                  c_embedding = Some [1]\<rparr>"

definition env_crm :: env where
  "env_crm = env0\<lparr>hubspot_list := (\<lambda>tok after. Inr ([hs_changed, hs_new], None))\<rparr>"

definition world_crm :: world where
  "world_crm = world0\<lparr>users := [user0, user2], contacts := [contact_old],
                      sync_status := [2 \<mapsto> [Hubspot \<mapsto> busy_entry]]\<rparr>"

definition env_pages :: env where
  "env_pages = env0\<lparr>gmail_list := (\<lambda>tok q pt.
       if pt = None then Inr ([''a'', ''b''], Some ''p2'') else Inr ([''c''], None))\<rparr>"

section \<open>Properties of the agent\<close>

lemma agent_frame_refl [simp]: "agent_frame w w"
  by (simp add: agent_frame_def)

lemma agent_frame_trans: "agent_frame w w1 \<Longrightarrow> agent_frame w1 w2 \<Longrightarrow> agent_frame w w2"
  by (auto simp: agent_frame_def)

lemma agent_frame_log [simp]: "agent_frame w (log_event ev w)"
  by (simp add: agent_frame_def log_event_def)

lemma get_embedding_eq:
  "get_embedding env t w = (embed env (take 20000 t), log_event (EmbedCall (take 20000 t)) w)"
  by (simp add: get_embedding_def Let_def)

lemma get_embedding_frame: "agent_frame w (snd (get_embedding env t w))"
  by (simp add: get_embedding_def Let_def)

lemma search_emails_frame: "agent_frame w (snd (search_emails env u q k w))"
  using get_embedding_frame [of w env q]
  by (auto simp: search_emails_def Let_def split: prod.splits sum.splits)

lemma search_contacts_frame: "agent_frame w (snd (search_contacts env u q k w))"
  using get_embedding_frame [of w env q]
  by (auto simp: search_contacts_def Let_def split: prod.splits sum.splits)

lemma get_relevant_context_frame:
  "agent_frame w (snd (get_relevant_context env u q k1 k2 w))"
proof -
  obtain r1 w1 where s1: "search_emails env u q k1 w = (r1, w1)" by force
  obtain r2 w2 where s2: "search_contacts env u q k2 w1 = (r2, w2)" by force
  have f1: "agent_frame w w1" using search_emails_frame [of w env u q k1] s1 by simp
  have f2: "agent_frame w1 w2" using search_contacts_frame [of w1 env u q k2] s2 by simp
  show ?thesis
    using f1 f2 agent_frame_trans [OF f1 f2] s1 s2
    by (auto simp: get_relevant_context_def Let_def split: sum.splits)
qed

lemma detect_trigger_type_frame: "agent_frame w (snd (detect_trigger_type env i w))"
  by (auto simp: detect_trigger_type_def Let_def split: sum.splits option.splits)

lemma provider_tool_frame:
  "agent_frame w (snd (provider_tool env svc nc m req opt key args w))"
  by (auto simp: provider_tool_def Let_def split: sum.splits option.splits)

lemma create_task_frame: "agent_frame w (snd (create_task user args w))"
  by (auto simp: create_task_def Let_def agent_frame_def split: sum.splits)

lemma create_ongoing_instruction_frame:
  "agent_frame w (snd (create_ongoing_instruction env user args w))"
proof (cases \<open>arg_req args ''instruction''\<close>)
  case (Inl e)
  then show ?thesis by (simp add: create_ongoing_instruction_def)
next
  case (Inr itext)
  obtain t w1 where d: "detect_trigger_type env itext w = (t, w1)" by force
  have f: "agent_frame w w1" using detect_trigger_type_frame [of w env itext] d by simp
  show ?thesis
    using Inr d f
    by (simp add: create_ongoing_instruction_def Let_def agent_frame_def split: option.splits)
qed

lemma tool_body_frame: "agent_frame w (snd (tool_body env user n args w))"
proof -
  have g: "agent_frame w (snd (case get_relevant_context env (u_id user) q 5 5 w of
                (Inl e, w') \<Rightarrow> (Inl e, w')
              | (Inr context, w') \<Rightarrow> (Inr (ToolSuccess [(''context'', context)]), w')))" for q
    using get_relevant_context_frame [of w env "u_id user" q 5 5]
    by (auto split: prod.splits sum.splits)
  show ?thesis
    unfolding tool_body_def
    by (simp add: provider_tool_frame create_task_frame create_ongoing_instruction_frame g
             split: sum.splits)
qed

lemma execute_tool_frame: "agent_frame w (snd (execute_tool env user tc w))"
proof -
  let ?w0 = "log_event (ToolExec (tc_name tc)) w"
  have f0: "agent_frame w ?w0" by simp
  show ?thesis
  proof (cases "json_loads env (tc_arguments tc)")
    case (Inl e)
    then show ?thesis by (simp add: execute_tool_def Let_def)
  next
    case (Inr args)
    obtain r w1 where b: "tool_body env user (tc_name tc) args ?w0 = (r, w1)" by force
    have "agent_frame ?w0 w1" using tool_body_frame [of ?w0 env user "tc_name tc" args] b by simp
    then have "agent_frame w w1" using f0 agent_frame_trans by blast
    then show ?thesis using Inr b
      by (auto simp: execute_tool_def Let_def split: sum.splits error.splits)
  qed
qed

lemma run_tool_calls_frame: "agent_frame w (snd (run_tool_calls env user tcs ms w))"
proof (induction tcs arbitrary: ms w)
  case Nil
  then show ?case by simp
next
  case (Cons tc tcs)
  obtain r w1 where e: "execute_tool env user tc w = (r, w1)" by force
  have f1: "agent_frame w w1" using execute_tool_frame [of w env user tc] e by simp
  show ?case
  proof (cases r)
    case (Inl x)
    then show ?thesis using e f1 by simp
  next
    case (Inr res)
    then show ?thesis
      using e f1 Cons.IH [of w1 "ms @ [ToolMsg (tc_id tc) (json_dumps env res)]"]
            agent_frame_trans by auto
  qed
qed

lemma chat_try_frame: "agent_frame w (snd (chat_try env user ms w))"
proof -
  let ?w1 = "log_event (ModelCall ms True) w"
  have f1: "agent_frame w ?w1" by simp
  show ?thesis
  proof (cases "llm_chat env ms True")
    case (Inl e)
    then show ?thesis by (simp add: chat_try_def Let_def)
  next
    case (Inr a)
    show ?thesis
    proof (cases "tool_calls a = []")
      case True
      then show ?thesis using Inr by (simp add: chat_try_def Let_def)
    next
      case False
      obtain r w2 where t: "run_tool_calls env user (tool_calls a) (ms @ [AssistantMsg a]) ?w1 = (r, w2)"
        by force
      have "agent_frame ?w1 w2"
        using run_tool_calls_frame [of ?w1 env user "tool_calls a" "ms @ [AssistantMsg a]"] t by simp
      then have f2: "agent_frame w w2" using f1 agent_frame_trans by blast
      have f3: "agent_frame w (log_event ev w2)" for ev
        using f2 agent_frame_log agent_frame_trans by blast
      show ?thesis using Inr False t f2 f3
        by (auto simp: chat_try_def Let_def split: sum.splits)
    qed
  qed
qed

lemma chat_returns: "\<exists>r. fst (chat env user m h w) = Inr r"
  by (auto simp: chat_def Let_def split: prod.splits sum.splits error.splits)

lemma chat_frame: "agent_frame w (snd (chat env user m h w))"
proof -
  obtain r w1 where t: "chat_try env user (initial_messages env user m h w) w = (r, w1)" by force
  have "agent_frame w w1" using chat_try_frame [of w env user "initial_messages env user m h w"] t by simp
  then show ?thesis using t
    by (auto simp: chat_def Let_def split: sum.splits error.splits)
qed

lemma process_ongoing_instructions_returns:
  "\<exists>r. fst (process_ongoing_instructions env user t d w) = Inr r"
proof -
  let ?w0 = "log_event (TriggerEval (u_id user) t (td_email_id d)) w"
  let ?is = "matching_instructions (u_id user) t (instructions ?w0)"
  obtain r w1 where c: "chat env user (trigger_prompt env t d ?is) [] ?w0 = (r, w1)" by force
  obtain r' where "r = Inr r'" using chat_returns [of env user "trigger_prompt env t d ?is" "[]" ?w0] c by auto
  then show ?thesis using c
    by (auto simp: process_ongoing_instructions_def Let_def)
qed

lemma process_ongoing_instructions_frame:
  "agent_frame w (snd (process_ongoing_instructions env user t d w))"
proof -
  let ?w0 = "log_event (TriggerEval (u_id user) t (td_email_id d)) w"
  let ?is = "matching_instructions (u_id user) t (instructions ?w0)"
  obtain r w1 where c: "chat env user (trigger_prompt env t d ?is) [] ?w0 = (r, w1)" by force
  have "agent_frame ?w0 w1" using chat_frame [of ?w0 env user "trigger_prompt env t d ?is" "[]"] c by simp
  then have "agent_frame w w1" using agent_frame_log agent_frame_trans by blast
  then show ?thesis using c
    by (auto simp: process_ongoing_instructions_def Let_def split: sum.splits)
qed

lemma chat_try_first_call:
  "prefix (trace w @ [ModelCall ms True]) (trace (snd (chat_try env user ms w)))"
proof -
  let ?w1 = "log_event (ModelCall ms True) w"
  have t1: "trace ?w1 = trace w @ [ModelCall ms True]" by (simp add: log_event_def)
  show ?thesis
  proof (cases "llm_chat env ms True")
    case (Inl e)
    then show ?thesis by (simp add: chat_try_def Let_def t1)
  next
    case (Inr a)
    show ?thesis
    proof (cases "tool_calls a = []")
      case True
      then show ?thesis using Inr by (simp add: chat_try_def Let_def t1)
    next
      case False
      obtain r w2 where t: "run_tool_calls env user (tool_calls a) (ms @ [AssistantMsg a]) ?w1 = (r, w2)"
        by force
      have "agent_frame ?w1 w2"
        using run_tool_calls_frame [of ?w1 env user "tool_calls a" "ms @ [AssistantMsg a]"] t by simp
      then have p2: "prefix (trace ?w1) (trace w2)" by (simp add: agent_frame_def)
      have p3: "prefix (trace ?w1) (trace (log_event ev w2))" for ev
        using p2 by (simp add: log_event_def)
      show ?thesis using Inr False t p2 p3 unfolding t1 [symmetric]
        by (auto simp: chat_try_def Let_def split: sum.splits)
    qed
  qed
qed

lemma chat_first_call:
  "prefix (trace w @ [ModelCall (initial_messages env user m h w) True])
          (trace (snd (chat env user m h w)))"
proof -
  obtain r w1 where t: "chat_try env user (initial_messages env user m h w) w = (r, w1)" by force
  have "prefix (trace w @ [ModelCall (initial_messages env user m h w) True]) (trace w1)"
    using chat_try_first_call [of w "initial_messages env user m h w" env user] t by simp
  then show ?thesis using t
    by (auto simp: chat_def Let_def split: sum.splits error.splits)
qed

text \<open>
  Claim C7.  For a new-record event of type \<open>t\<close> the trigger evaluator selects exactly the
  user's active standing instructions whose trigger type is \<open>t\<close> or \<open>"all"\<close>: an instruction
  typed for another source is never selected, an active \<open>"all"\<close> instruction of the user
  always is.  When nothing is selected the evaluator returns \<open>None\<close> and only its own entry
  is added to the trace, so no model call is made; when something is selected the first
  thing it does is a model call whose user message carries the selected instructions.
\<close>

theorem trigger_selection:
  "set (matching_instructions (u_id user) t (instructions w)) =
     {i \<in> set (instructions w). i_user_id i = u_id user \<and> is_active i \<and>
        (trigger_type i = Some t \<or> trigger_type i = Some ''all'')}
   \<and> (\<forall>i s. trigger_type i = Some s \<and> s \<noteq> t \<and> s \<noteq> ''all'' \<longrightarrow>
          i \<notin> set (matching_instructions (u_id user) t (instructions w)))
   \<and> (\<forall>i \<in> set (instructions w).
          i_user_id i = u_id user \<and> is_active i \<and> trigger_type i = Some ''all'' \<longrightarrow>
          i \<in> set (matching_instructions (u_id user) t (instructions w)))
   \<and> (matching_instructions (u_id user) t (instructions w) = [] \<longrightarrow>
          process_ongoing_instructions env user t d w =
            (Inr None, log_event (TriggerEval (u_id user) t (td_email_id d)) w))
   \<and> (matching_instructions (u_id user) t (instructions w) \<noteq> [] \<longrightarrow>
          (\<exists>r w'. process_ongoing_instructions env user t d w = (Inr r, w') \<and>
             prefix (trace w @ [TriggerEval (u_id user) t (td_email_id d),
                       ModelCall (initial_messages env user
                          (trigger_prompt env t d
                             (matching_instructions (u_id user) t (instructions w))) [] w) True])
                    (trace w')))"
proof -
  let ?w0 = "log_event (TriggerEval (u_id user) t (td_email_id d)) w"
  let ?is = "matching_instructions (u_id user) t (instructions w)"
  have i0: "instructions ?w0 = instructions w" by (simp add: log_event_def)
  have t0: "trace ?w0 = trace w @ [TriggerEval (u_id user) t (td_email_id d)]"
    by (simp add: log_event_def)
  have m0: "initial_messages env user p [] ?w0 = initial_messages env user p [] w" for p
    by (simp add: initial_messages_def i0)
  have c1: "set ?is = {i \<in> set (instructions w). i_user_id i = u_id user \<and> is_active i \<and>
        (trigger_type i = Some t \<or> trigger_type i = Some ''all'')}"
    by (auto simp: matching_instructions_def)
  have c2: "\<forall>i s. trigger_type i = Some s \<and> s \<noteq> t \<and> s \<noteq> ''all'' \<longrightarrow> i \<notin> set ?is"
    by (auto simp: matching_instructions_def)
  have c3: "\<forall>i \<in> set (instructions w).
          i_user_id i = u_id user \<and> is_active i \<and> trigger_type i = Some ''all'' \<longrightarrow> i \<in> set ?is"
    by (auto simp: matching_instructions_def)
  have c4: "?is = [] \<longrightarrow> process_ongoing_instructions env user t d w = (Inr None, ?w0)"
    by (simp add: process_ongoing_instructions_def Let_def i0)
  have c5: "?is \<noteq> [] \<longrightarrow>
          (\<exists>r w'. process_ongoing_instructions env user t d w = (Inr r, w') \<and>
             prefix (trace w @ [TriggerEval (u_id user) t (td_email_id d),
                       ModelCall (initial_messages env user (trigger_prompt env t d ?is) [] w) True])
                    (trace w'))"
  proof
    assume ne: "?is \<noteq> []"
    obtain r w1 where c: "chat env user (trigger_prompt env t d ?is) [] ?w0 = (r, w1)" by force
    obtain r' where r: "r = Inr r'"
      using chat_returns [of env user "trigger_prompt env t d ?is" "[]" ?w0] c by auto
    have "prefix (trace ?w0 @ [ModelCall (initial_messages env user (trigger_prompt env t d ?is) [] ?w0) True])
                 (trace w1)"
      using chat_first_call [of ?w0 env user "trigger_prompt env t d ?is" "[]"] c by simp
    then have p: "prefix (trace w @ [TriggerEval (u_id user) t (td_email_id d),
                       ModelCall (initial_messages env user (trigger_prompt env t d ?is) [] w) True])
                    (trace w1)"
      by (simp add: t0 m0)
    have "process_ongoing_instructions env user t d w = (Inr (response r'), w1)"
      using ne c r by (simp add: process_ongoing_instructions_def Let_def i0)
    then show "\<exists>r w'. process_ongoing_instructions env user t d w = (Inr r, w') \<and>
             prefix (trace w @ [TriggerEval (u_id user) t (td_email_id d),
                       ModelCall (initial_messages env user (trigger_prompt env t d ?is) [] w) True])
                    (trace w')"
      using p by blast
  qed
  show ?thesis using c1 c2 c3 c4 c5 by blast
qed

text \<open>
  Claim C4.  \<open>AIAgent.chat\<close> always returns a result and never raises.  Whenever the body of
  its \<open>try\<close> raises, in particular when the first model call raises, when the tool loop
  lets an exception through, or when the second model call raises, the result has no
  response text and its error field holds \<open>"Error processing message: "\<close> followed by the
  text of the exception.
\<close>

theorem chat_never_raises:
  "\<exists>r w'. chat env user m h w = (Inr r, w') \<and>
     (\<forall>e. fst (chat_try env user (initial_messages env user m h w) w) = Inl (Exn e) \<longrightarrow>
          r = \<lparr>response = None, error_text = Some (''Error processing message: '' @ e)\<rparr>) \<and>
     (\<forall>e. llm_chat env (initial_messages env user m h w) True = Inl (Exn e) \<longrightarrow>
          r = \<lparr>response = None, error_text = Some (''Error processing message: '' @ e)\<rparr>) \<and>
     (\<forall>a e w2. llm_chat env (initial_messages env user m h w) True = Inr a \<and>
          tool_calls a \<noteq> [] \<and>
          run_tool_calls env user (tool_calls a)
             (initial_messages env user m h w @ [AssistantMsg a])
             (log_event (ModelCall (initial_messages env user m h w) True) w) = (Inl (Exn e), w2) \<longrightarrow>
          r = \<lparr>response = None, error_text = Some (''Error processing message: '' @ e)\<rparr>) \<and>
     (\<forall>a ms2 w2 e. llm_chat env (initial_messages env user m h w) True = Inr a \<and>
          tool_calls a \<noteq> [] \<and>
          run_tool_calls env user (tool_calls a)
             (initial_messages env user m h w @ [AssistantMsg a])
             (log_event (ModelCall (initial_messages env user m h w) True) w) = (Inr ms2, w2) \<and>
          llm_chat env ms2 False = Inl (Exn e) \<longrightarrow>
          r = \<lparr>response = None, error_text = Some (''Error processing message: '' @ e)\<rparr>)"
proof -
  let ?ms = "initial_messages env user m h w"
  let ?err = "\<lambda>e. \<lparr>response = None, error_text = Some (''Error processing message: '' @ e)\<rparr>"
  obtain x w1 where t: "chat_try env user ?ms w = (x, w1)" by force
  have c1: "llm_chat env ?ms True = Inl (Exn e) \<Longrightarrow> x = Inl (Exn e)" for e
    using t by (simp add: chat_try_def Let_def)
  have c2: "llm_chat env ?ms True = Inr a \<Longrightarrow> tool_calls a \<noteq> [] \<Longrightarrow>
        run_tool_calls env user (tool_calls a) (?ms @ [AssistantMsg a])
          (log_event (ModelCall ?ms True) w) = (Inl (Exn e), w2) \<Longrightarrow> x = Inl (Exn e)" for a e w2
    using t by (simp add: chat_try_def Let_def)
  have c3: "llm_chat env ?ms True = Inr a \<Longrightarrow> tool_calls a \<noteq> [] \<Longrightarrow>
        run_tool_calls env user (tool_calls a) (?ms @ [AssistantMsg a])
          (log_event (ModelCall ?ms True) w) = (Inr ms2, w2) \<Longrightarrow>
        llm_chat env ms2 False = Inl (Exn e) \<Longrightarrow> x = Inl (Exn e)" for a e w2 ms2
    using t by (simp add: chat_try_def Let_def)
  show ?thesis
  proof (cases x)
    case (Inl err)
    obtain e0 where e0: "err = Exn e0" by (cases err)
    have "chat env user m h w = (Inr (?err e0), w1)"
      using t Inl e0 by (simp add: chat_def Let_def error_result_def)
    then show ?thesis using t Inl e0 c1 c2 c3 by auto
  next
    case (Inr r0)
    have ne: "x \<noteq> Inl z" for z using Inr by simp
    have d0: "fst (chat_try env user ?ms w) \<noteq> Inl (Exn e)" for e using t ne by simp
    have d1: "llm_chat env ?ms True \<noteq> Inl (Exn e)" for e using c1 ne by blast
    have d2: "\<not> (llm_chat env ?ms True = Inr a \<and> tool_calls a \<noteq> [] \<and>
        run_tool_calls env user (tool_calls a) (?ms @ [AssistantMsg a])
          (log_event (ModelCall ?ms True) w) = (Inl (Exn e), w2))" for a e w2
      using c2 ne by blast
    have d3: "\<not> (llm_chat env ?ms True = Inr a \<and> tool_calls a \<noteq> [] \<and>
        run_tool_calls env user (tool_calls a) (?ms @ [AssistantMsg a])
          (log_event (ModelCall ?ms True) w) = (Inr ms2, w2) \<and>
        llm_chat env ms2 False = Inl (Exn e))" for a e w2 ms2
      using c3 ne by blast
    have "chat env user m h w = (Inr r0, w1)"
      using t Inr by (simp add: chat_def Let_def)
    then show ?thesis using d0 d1 d2 d3 by blast
  qed
qed

theorem chat_never_raises_witness:
  "fst (chat env_down user0 ''hello'' [] world0) =
     Inr \<lparr>response = None, error_text = Some ''Error processing message: rate limit''\<rparr>"
  using chat_never_raises [of env_down user0 "''hello''" "[]" world0]
  by (auto simp: env_down_def env0_def)

theorem trigger_selection_witness:
  "process_ongoing_instructions env0 user0 ''email'' data0 (world0\<lparr>instructions := [cal_instr]\<rparr>) =
     (Inr None, log_event (TriggerEval 1 ''email'' ''m1'') (world0\<lparr>instructions := [cal_instr]\<rparr>))
   \<and> cal_instr \<notin> set (matching_instructions 1 ''email'' [cal_instr, all_instr])
   \<and> all_instr \<in> set (matching_instructions 1 ''email'' [cal_instr, all_instr])
   \<and> (\<exists>r w'. process_ongoing_instructions env0 user0 ''email'' data0
                 (world0\<lparr>instructions := [cal_instr, all_instr]\<rparr>) = (Inr r, w') \<and>
               take 1 (trace w') = [TriggerEval 1 ''email'' ''m1''])"
proof -
  let ?w1 = "world0\<lparr>instructions := [cal_instr]\<rparr>"
  let ?w2 = "world0\<lparr>instructions := [cal_instr, all_instr]\<rparr>"
  have e1: "matching_instructions (u_id user0) ''email'' (instructions ?w1) = []"
    by (simp add: matching_instructions_def user0_def world0_def cal_instr_def)
  have e2: "matching_instructions (u_id user0) ''email'' (instructions ?w2) \<noteq> []"
    by (simp add: matching_instructions_def user0_def world0_def cal_instr_def all_instr_def)
  have u: "u_id user0 = 1" by (simp add: user0_def)
  have d: "td_email_id data0 = ''m1''" by (simp add: data0_def)
  have i2: "instructions ?w2 = [cal_instr, all_instr]" by simp
  have t2: "trace ?w2 = []" by (simp add: world0_def)
  have a: "process_ongoing_instructions env0 user0 ''email'' data0 ?w1 =
     (Inr None, log_event (TriggerEval 1 ''email'' ''m1'') ?w1)"
    using trigger_selection [of user0 "''email''" ?w1 env0 data0] e1 u d by simp
  have b: "cal_instr \<notin> set (matching_instructions 1 ''email'' [cal_instr, all_instr])"
    using trigger_selection [of user0 "''email''" ?w2 env0 data0] u i2
    by (simp add: cal_instr_def)
  have c: "all_instr \<in> set (matching_instructions 1 ''email'' [cal_instr, all_instr])"
    using trigger_selection [of user0 "''email''" ?w2 env0 data0] u i2
    by (simp add: all_instr_def world0_def)
  have "\<exists>r w'. process_ongoing_instructions env0 user0 ''email'' data0 ?w2 = (Inr r, w') \<and>
               take 1 (trace w') = [TriggerEval 1 ''email'' ''m1'']"
    using trigger_selection [of user0 "''email''" ?w2 env0 data0] e2 u d t2
    by (auto simp: prefix_def)
  then show ?thesis using a b c by blast
qed

lemma execute_tool_parsed:
  assumes "json_loads env (tc_arguments tc) = Inr args"
  shows "\<exists>r. fst (execute_tool env user tc w) = Inr r"
  using assms
  by (auto simp: execute_tool_def Let_def split: prod.splits sum.splits error.splits)

lemma execute_tool_unparsed:
  assumes "json_loads env (tc_arguments tc) = Inl e"
  shows "execute_tool env user tc w = (Inl e, log_event (ToolExec (tc_name tc)) w)"
  using assms by (simp add: execute_tool_def Let_def)

lemma run_tool_calls_parsed:
  assumes "\<forall>t \<in> set pre. \<exists>args. json_loads env (tc_arguments t) = Inr args"
  shows "\<exists>ms'. fst (run_tool_calls env user pre ms w) = Inr ms'"
  using assms
proof (induction pre arbitrary: ms w)
  case Nil
  then show ?case by simp
next
  case (Cons t pre)
  obtain args where a: "json_loads env (tc_arguments t) = Inr args" using Cons.prems by auto
  obtain r w1 where e: "execute_tool env user t w = (r, w1)" by force
  obtain res where r: "r = Inr res" using execute_tool_parsed [OF a, of user w] e by auto
  show ?case using e r Cons.IH [of "ms @ [ToolMsg (tc_id t) (json_dumps env res)]" w1] Cons.prems
    by simp
qed

lemma run_tool_calls_stops:
  assumes "\<forall>t \<in> set pre. \<exists>args. json_loads env (tc_arguments t) = Inr args"
      and "json_loads env (tc_arguments tc) = Inl e"
  shows "\<exists>ms' w1. run_tool_calls env user pre ms w = (Inr ms', w1) \<and>
           run_tool_calls env user (pre @ tc # post) ms w =
             (Inl e, log_event (ToolExec (tc_name tc)) w1)"
  using assms(1)
proof (induction pre arbitrary: ms w)
  case Nil
  then show ?case using execute_tool_unparsed [OF assms(2)] by simp
next
  case (Cons t pre)
  obtain args where a: "json_loads env (tc_arguments t) = Inr args" using Cons.prems by auto
  obtain r w1 where ex: "execute_tool env user t w = (r, w1)" by force
  obtain res where r: "r = Inr res" using execute_tool_parsed [OF a, of user w] ex by auto
  have "\<forall>t \<in> set pre. \<exists>args. json_loads env (tc_arguments t) = Inr args" using Cons.prems by simp
  from Cons.IH [OF this, of "ms @ [ToolMsg (tc_id t) (json_dumps env res)]" w1]
  show ?case using ex r by simp
qed

text \<open>
  Claim C9.  The arguments of a tool call are parsed before the \<open>try\<close> of the tool executor.
  When the model returns tool calls of which the first ones parse and the next one does not,
  the tools before it run, the executor leaves with the parse error as an exception (not
  as a failure result), the tool calls after it are never entered, no second model call is
  made, and the turn ends with no response text and the parse error in its error field.
\<close>

theorem parse_error_fails_turn:
  assumes "llm_chat env (initial_messages env user m h w) True = Inr a"
      and "tool_calls a = pre @ tc # post"
      and "\<forall>t \<in> set pre. \<exists>args. json_loads env (tc_arguments t) = Inr args"
      and "json_loads env (tc_arguments tc) = Inl (Exn e)"
  shows "\<exists>ms' w1.
           run_tool_calls env user pre (initial_messages env user m h w @ [AssistantMsg a])
             (log_event (ModelCall (initial_messages env user m h w) True) w) = (Inr ms', w1)
         \<and> execute_tool env user tc w1 = (Inl (Exn e), log_event (ToolExec (tc_name tc)) w1)
         \<and> chat env user m h w =
             (Inr \<lparr>response = None, error_text = Some (''Error processing message: '' @ e)\<rparr>,
              log_event (ToolExec (tc_name tc)) w1)"
proof -
  let ?ms = "initial_messages env user m h w"
  let ?w0 = "log_event (ModelCall ?ms True) w"
  obtain ms' w1 where
    p: "run_tool_calls env user pre (?ms @ [AssistantMsg a]) ?w0 = (Inr ms', w1)" and
    q: "run_tool_calls env user (pre @ tc # post) (?ms @ [AssistantMsg a]) ?w0 =
          (Inl (Exn e), log_event (ToolExec (tc_name tc)) w1)"
    using run_tool_calls_stops [OF assms(3) assms(4), of user "?ms @ [AssistantMsg a]" ?w0 post]
    by blast
  have ne: "tool_calls a \<noteq> []" using assms(2) by simp
  have t: "chat_try env user ?ms w = (Inl (Exn e), log_event (ToolExec (tc_name tc)) w1)"
    using assms(1) ne q assms(2) by (simp add: chat_try_def Let_def)
  have c: "chat env user m h w =
             (Inr \<lparr>response = None, error_text = Some (''Error processing message: '' @ e)\<rparr>,
              log_event (ToolExec (tc_name tc)) w1)"
    using t by (simp add: chat_def Let_def error_result_def)
  show ?thesis
    using p c execute_tool_unparsed [OF assms(4), of user w1] by blast
qed

theorem parse_error_fails_turn_witness:
  "fst (chat env_tools user0 ''hello'' [] world0) =
     Inr \<lparr>response = None,
          error_text = Some ''Error processing message: Expecting property name''\<rparr>
   \<and> [n. ToolExec n \<leftarrow> trace (snd (chat env_tools user0 ''hello'' [] world0))] =
        [''get_calendar_events'', ''send_email'']"
proof -
  let ?c1 = "\<lparr>tc_id = ''c1'', tc_name = ''get_calendar_events'', tc_arguments = ''{}''\<rparr>"
  let ?c2 = "\<lparr>tc_id = ''c2'', tc_name = ''send_email'', tc_arguments = ''{''\<rparr>"
  let ?c3 = "\<lparr>tc_id = ''c3'', tc_name = ''create_task'', tc_arguments = ''{}''\<rparr>"
  let ?a = "\<lparr>content = None, tool_calls = [?c1, ?c2, ?c3]\<rparr>"
  let ?ms = "initial_messages env_tools user0 ''hello'' [] world0"
  have h1: "llm_chat env_tools ?ms True = Inr ?a" by (simp add: env_tools_def env0_def)
  have h2: "tool_calls ?a = [?c1] @ ?c2 # [?c3]" by simp
  have h3: "\<forall>t \<in> set [?c1]. \<exists>args. json_loads env_tools (tc_arguments t) = Inr args"
    by (simp add: env_tools_def env0_def)
  have h4: "json_loads env_tools (tc_arguments ?c2) = Inl (Exn ''Expecting property name'')"
    by (simp add: env_tools_def env0_def)
  have r1: "run_tool_calls env_tools user0 [?c1] (?ms @ [AssistantMsg ?a])
              (log_event (ModelCall ?ms True) world0) =
            (Inr (?ms @ [AssistantMsg ?a, ToolMsg ''c1'' ''ok'']),
             world0\<lparr>trace := [ModelCall ?ms True, ToolExec ''get_calendar_events'',
                                CapabilityCall ''list_calendar_events'' [None, None]]\<rparr>)"
    by (simp add: execute_tool_def tool_body_def provider_tool_def google_service_def truthy_def
          Let_def env_tools_def env0_def user0_def world0_def log_event_def)
  from parse_error_fails_turn [OF h1 h2 h3 h4] r1
  show ?thesis by (auto simp: log_event_def world0_def)
qed

lemma detect_trigger_type_eq:
  "detect_trigger_type env instr w =
     (classified env instr, log_event (ClassifyCall (detect_trigger_prompt instr)) w)"
  by (simp add: detect_trigger_type_def classified_def Let_def split: sum.splits option.splits)


lemma lower_strip_hubspot: "lower (strip '' HubSpot '') = ''hubspot''"
  by code_simp


section \<open>Properties of the retrieval engine\<close>

lemma insort_key_pairs:
  assumes "\<forall>p \<in> set ps. fst p = f (snd p)"
  shows "map snd (insort_key fst (f x, x) ps) = insort_key f x (map snd ps)"
  using assms by (induction ps) auto

lemma set_insort_key_pairs:
  assumes "\<forall>p \<in> set ps. fst p = f (snd p)"
  shows "\<forall>p \<in> set (insort_key fst (f x, x) ps). fst p = f (snd p)"
  using assms by (auto simp: set_insort_key)

lemma sort_key_pairs:
  "map snd (sort_key fst (map (\<lambda>r. (f r, r)) xs)) = sort_key f xs"
proof (induction xs)
  case Nil
  then show ?case by simp
next
  case (Cons x xs)
  have "\<forall>p \<in> set (sort_key fst (map (\<lambda>r. (f r, r)) xs)). fst p = f (snd p)" by auto
  then show ?case using Cons insort_key_pairs [of _ f x] by simp
qed

lemma top_k_sorted:
  fixes f :: "'a \<Rightarrow> 'k::linorder"
  shows "set (take k (sort_key f xs)) \<subseteq> set xs
       \<and> (distinct xs \<longrightarrow> distinct (take k (sort_key f xs)))
       \<and> length (take k (sort_key f xs)) = min k (length xs)
       \<and> sorted (map f (take k (sort_key f xs)))
       \<and> (\<forall>x \<in> set xs - set (take k (sort_key f xs)).
            \<forall>t \<in> set (take k (sort_key f xs)). f t \<le> f x)"
proof -
  let ?S = "sort_key f xs"
  have s: "sorted (map f ?S)" by simp
  have a: "set (take k ?S) \<subseteq> set xs" using set_take_subset [of k ?S] by simp
  have b: "distinct xs \<longrightarrow> distinct (take k ?S)" by simp
  have c: "length (take k ?S) = min k (length xs)" by (simp add: min_def)
  have d: "sorted (map f (take k ?S))" using s by (simp add: take_map [symmetric] sorted_wrt_take)
  have e: "\<forall>x \<in> set xs - set (take k ?S). \<forall>t \<in> set (take k ?S). f t \<le> f x"
  proof (intro ballI)
    fix x t assume x: "x \<in> set xs - set (take k ?S)" and t: "t \<in> set (take k ?S)"
    have "set ?S = set (take k ?S) \<union> set (drop k ?S)"
      using set_append [of "take k ?S" "drop k ?S"] by simp
    then have xd: "x \<in> set (drop k ?S)" using x by auto
    have "sorted (map f (take k ?S) @ map f (drop k ?S))"
      using s by (simp add: map_append [symmetric] del: map_append)
    then show "f t \<le> f x" using t xd by (auto simp: sorted_append)
  qed
  show ?thesis using a b c d e by blast
qed

lemma map_filter_eligible:
  "List.map_filter
     (\<lambda>r. case emb_of r of None \<Rightarrow> None
           | Some v \<Rightarrow> if uid_of r = user_id then Some (dst v q, r) else None) rows
   = map (\<lambda>r. (row_distance emb_of dst q r, r)) (eligible uid_of emb_of user_id rows)"
  by (induction rows) (auto simp: List.map_filter_simps eligible_def row_distance_def split: option.splits)

lemma pgvector_search_eq:
  "pgvector_search uid_of emb_of dst user_id q k rows =
     take k (sort_key (row_distance emb_of dst q) (eligible uid_of emb_of user_id rows))"
  by (simp add: pgvector_search_def map_filter_eligible sort_key_pairs)

lemma map_filter_lookup:
  assumes "\<forall>r \<in> set ys. d (id_of r) = Some r"
  shows "List.map_filter d (map id_of ys) = ys"
  using assms by (induction ys) (auto simp: List.map_filter_simps)

lemma by_ids_same:
  assumes "distinct (map id_of rows)" and "set rs \<subseteq> set rows"
  shows "by_ids id_of (map id_of rs) rows = rs"
proof -
  let ?found = "filter (\<lambda>r. id_of r \<in> set (map id_of rs)) rows"
  let ?d = "map_of (rev (map (\<lambda>r. (id_of r, r)) ?found))"
  have df: "distinct (map id_of ?found)" using assms(1) by (simp add: distinct_map_filter)
  have dk: "distinct (map fst (rev (map (\<lambda>r. (id_of r, r)) ?found)))"
    using df by (simp add: rev_map [symmetric] comp_def)
  have l: "?d (id_of r) = Some r" if "r \<in> set rs" for r
  proof -
    have "r \<in> set ?found" using that assms(2) by auto
    then have "(id_of r, r) \<in> set (rev (map (\<lambda>r. (id_of r, r)) ?found))" by auto
    then show ?thesis using dk by simp
  qed
  have "List.map_filter ?d (map id_of rs) = rs"
    using l map_filter_lookup [of rs ?d id_of] by blast
  then show ?thesis by (simp add: by_ids_def Let_def)
qed

lemma semantic_rows:
  assumes "distinct (map id_of rows)"
  shows "by_ids id_of (map id_of (pgvector_search uid_of emb_of dst user_id q k rows)) rows =
           take k (sort_key (row_distance emb_of dst q) (eligible uid_of emb_of user_id rows))"
proof -
  have "set (take k (sort_key (row_distance emb_of dst q) (eligible uid_of emb_of user_id rows)))
          \<subseteq> set rows"
    using set_take_subset [of k "sort_key (row_distance emb_of dst q) (eligible uid_of emb_of user_id rows)"]
    by (auto simp: eligible_def)
  then show ?thesis using by_ids_same [OF assms] by (simp add: pgvector_search_eq)
qed

lemma eligible_distinct:
  "distinct (map id_of rows) \<Longrightarrow> distinct (eligible uid_of emb_of user_id rows)"
  by (simp add: eligible_def distinct_map)

lemma top_k_semantic:
  assumes "distinct (map id_of rows)"
  shows "is_top_k (row_distance emb_of dst q) k (eligible uid_of emb_of user_id rows)
           (by_ids id_of (map id_of (pgvector_search uid_of emb_of dst user_id q k rows)) rows)"
  using top_k_sorted [of k "row_distance emb_of dst q" "eligible uid_of emb_of user_id rows"]
        eligible_distinct [OF assms, of uid_of emb_of user_id]
  unfolding semantic_rows [OF assms] is_top_k_def by blast


lemma mail0_no_exact: "exact_matches mail0 1 ''reschedule my appointment'' 2 = []"
  by code_simp


lemma like_match_any [simp]: "like_match ''%'' s"
  by (induction s) auto

lemma like_match_plain_prefix:
  "plain q \<Longrightarrow> like_match (q @ ''%'') s \<longleftrightarrow> prefix q s"
proof (induction q arbitrary: s)
  case Nil
  then show ?case using like_match_any [of s] by (simp del: like_match.simps)
next
  case (Cons c q)
  then have p: "plain q" and c: "c \<noteq> CHR ''%''" "c \<noteq> CHR ''_''" "c \<noteq> CHR 0x5C"
    by (simp_all add: plain_def)
  show ?case
  proof (cases s)
    case Nil
    then show ?thesis using c by simp
  next
    case (Cons d ds)
    then show ?thesis using c Cons.IH [OF p, of ds] by auto
  qed
qed

lemma like_match_percent:
  "like_match (CHR ''%'' # p) s \<longleftrightarrow> (\<exists>k \<le> length s. like_match p (drop k s))"
proof (induction s)
  case Nil
  then show ?case by simp
next
  case (Cons d ds)
  have "(\<exists>k \<le> length (d # ds). like_match p (drop k (d # ds))) \<longleftrightarrow>
        like_match p (d # ds) \<or> (\<exists>k \<le> length ds. like_match p (drop k ds))"
  proof
    assume "\<exists>k \<le> length (d # ds). like_match p (drop k (d # ds))"
    then obtain k where k: "k \<le> length (d # ds)" "like_match p (drop k (d # ds))" by blast
    show "like_match p (d # ds) \<or> (\<exists>k \<le> length ds. like_match p (drop k ds))"
    proof (cases k)
      case 0
      then show ?thesis using k by simp
    next
      case (Suc j)
      then show ?thesis using k by auto
    qed
  next
    assume "like_match p (d # ds) \<or> (\<exists>k \<le> length ds. like_match p (drop k ds))"
    then show "\<exists>k \<le> length (d # ds). like_match p (drop k (d # ds))"
    proof
      assume "like_match p (d # ds)"
      then have "like_match p (drop 0 (d # ds))" by simp
      then show ?thesis by blast
    next
      assume "\<exists>k \<le> length ds. like_match p (drop k ds)"
      then obtain k where "k \<le> length ds" "like_match p (drop k ds)" by blast
      then have "Suc k \<le> length (d # ds)" "like_match p (drop (Suc k) (d # ds))" by simp_all
      then show ?thesis by blast
    qed
  qed
  then show ?case using Cons by simp
qed

lemma sublist_drop_prefix: "sublist q s \<longleftrightarrow> (\<exists>k \<le> length s. prefix q (drop k s))"
proof
  assume "sublist q s"
  then obtain ps ss where s: "s = ps @ q @ ss" by (auto simp: sublist_def)
  then have "length ps \<le> length s" "prefix q (drop (length ps) s)" by simp_all
  then show "\<exists>k \<le> length s. prefix q (drop k s)" by blast
next
  assume "\<exists>k \<le> length s. prefix q (drop k s)"
  then obtain k ss where "drop k s = q @ ss" by (auto simp: prefix_def)
  then have "s = take k s @ q @ ss" by (metis append_take_drop_id)
  then show "sublist q s" by (auto simp: sublist_def)
qed

lemma like_match_contains:
  "plain q \<Longrightarrow> like_match (CHR ''%'' # q @ ''%'') s \<longleftrightarrow> sublist q s"
  using like_match_percent [of "q @ ''%''" s]
  by (simp add: like_match_plain_prefix sublist_drop_prefix)

lemma of_char_lower_char:
  "(of_char (lower_char c) :: nat) =
     (if 65 \<le> (of_char c :: nat) \<and> (of_char c :: nat) \<le> 90 then of_char c + 32 else of_char c)"
  by (simp add: lower_char_def Let_def)

lemma lower_char_idem [simp]: "lower_char (lower_char c) = lower_char c"
proof -
  have "(of_char (lower_char (lower_char c)) :: nat) = of_char (lower_char c)"
    by (simp add: of_char_lower_char)
  then show ?thesis by (metis char_of_char)
qed

lemma is_space_lower_char [simp]: "is_space (lower_char c) = is_space c"
  by (simp add: is_space_def Let_def of_char_lower_char)

lemma lower_char_eq_fixed:
  assumes "(of_char d :: nat) < 65"
  shows "lower_char c = d \<longleftrightarrow> c = d"
proof -
  have "lower_char c = d \<longleftrightarrow> (of_char (lower_char c) :: nat) = of_char d"
    by (metis char_of_char)
  also have "\<dots> \<longleftrightarrow> (of_char c :: nat) = of_char d"
    using assms by (auto simp: of_char_lower_char)
  also have "\<dots> \<longleftrightarrow> c = d" by (metis char_of_char)
  finally show ?thesis .
qed

lemma lower_char_eq_fixed2:
  assumes "90 < (of_char d :: nat)" "(of_char d :: nat) < 97"
  shows "lower_char c = d \<longleftrightarrow> c = d"
proof -
  have "lower_char c = d \<longleftrightarrow> (of_char (lower_char c) :: nat) = of_char d"
    by (metis char_of_char)
  also have "\<dots> \<longleftrightarrow> (of_char c :: nat) = of_char d"
    using assms by (auto simp: of_char_lower_char)
  also have "\<dots> \<longleftrightarrow> c = d" by (metis char_of_char)
  finally show ?thesis .
qed

lemma lower_char_special [simp]:
  "lower_char c = CHR ''%'' \<longleftrightarrow> c = CHR ''%''"
  "lower_char c = CHR '' '' \<longleftrightarrow> c = CHR '' ''"
  "lower_char c = CHR ''_'' \<longleftrightarrow> c = CHR ''_''"
  "lower_char c = CHR 0x5C \<longleftrightarrow> c = CHR 0x5C"
  by (simp_all add: lower_char_eq_fixed lower_char_eq_fixed2)

lemma lower_idem [simp]: "lower (lower s) = lower s"
  by (simp add: lower_def)

lemma lower_strip: "lower (strip s) = strip (lower s)"
proof -
  have c: "is_space \<circ> lower_char = is_space" by (simp add: fun_eq_iff)
  show ?thesis
    by (simp add: lower_def strip_def rev_map dropWhile_map c)
qed

lemma lower_remove_spaces: "lower (remove_spaces s) = remove_spaces (lower s)"
proof -
  have c: "(\<lambda>c. c \<noteq> CHR '' '') \<circ> lower_char = (\<lambda>c. c \<noteq> CHR '' '')" by (simp add: fun_eq_iff)
  show ?thesis by (simp add: lower_def remove_spaces_def filter_map c)
qed

lemma plain_remove_spaces: "plain q \<Longrightarrow> plain (remove_spaces q)"
  by (induction q) (auto simp: plain_def remove_spaces_def)

lemma lower_percent [simp]: "lower (CHR ''%'' # q @ ''%'') = CHR ''%'' # lower q @ ''%''"
  by (simp add: lower_def lower_char_def Let_def)

lemma sender_ilike_sublist:
  assumes "plain q" and "lower q = q"
  shows "sender_ilike (CHR ''%'' # q @ ''%'') e \<longleftrightarrow>
           (case from_email e of None \<Rightarrow> False | Some s \<Rightarrow> sublist q (lower s))"
  using assms
  by (simp add: sender_ilike_def ilike_def like_match_contains del: like_match.simps
           split: option.splits)

lemma exact_filter:
  assumes "plain (strip (lower query))"
  shows "(sender_ilike (CHR ''%'' # strip (lower query) @ ''%'') e \<or>
          sender_ilike (CHR ''%'' # remove_spaces (strip (lower query)) @ ''%'') e)
         \<longleftrightarrow> sender_contains (strip (lower query)) e"
proof -
  let ?q = "strip (lower query)"
  have l1: "lower ?q = ?q" by (simp add: lower_strip)
  have l2: "lower (remove_spaces ?q) = remove_spaces ?q" by (simp add: lower_remove_spaces l1)
  have p2: "plain (remove_spaces ?q)" using assms by (rule plain_remove_spaces)
  show ?thesis
    unfolding sender_ilike_sublist [OF assms l1] sender_ilike_sublist [OF p2 l2]
    by (simp add: sender_contains_def split: option.splits)
qed

lemma exact_matches_eq:
  assumes "plain (strip (lower query))"
  shows "exact_matches es user_id query limit =
           take limit (newest_first (filter (\<lambda>e. e_user_id e = user_id \<and>
              sender_contains (strip (lower query)) e) es))"
  by (simp add: exact_matches_def Let_def exact_filter [OF assms])

lemma key_le_not_older:
  "map_option uminus (received_at a) \<le> map_option uminus (received_at b) \<Longrightarrow> not_older a b"
  by (cases "received_at a"; cases "received_at b") (simp_all add: not_older_def)

lemma newest_first_sorted: "sorted_wrt not_older (newest_first es)"
proof -
  have "sorted (map (\<lambda>e. map_option uminus (received_at e)) (newest_first es))"
    unfolding newest_first_def by (rule sorted_sort_key)
  then have s: "sorted_wrt (\<lambda>a b. map_option uminus (received_at a)
                                 \<le> map_option uminus (received_at b)) (newest_first es)"
    by (simp only: sorted_map)
  show ?thesis
    by (rule sorted_wrt_mono_rel [OF _ s]) (rule key_le_not_older)
qed


lemma mail0_alice:
  "take 5 (newest_first (filter (\<lambda>e. e_user_id e = 1 \<and> sender_contains (strip (lower ''Alice '')) e) mail0))
     = [mail0 ! 4, mail0 ! 0]"
  by code_simp

lemma mail0_alice_plain: "plain (strip (lower ''Alice ''))"
  by code_simp

lemma mail0_alice_sender: "e_user_id (mail0 ! 0) = 1 \<and> sender_contains (strip (lower ''Alice '')) (mail0 ! 0)"
  by code_simp



section \<open>Properties of the synchronisation pipeline\<close>

lemma sync_frame_refl [simp]: "sync_frame w w"
  by (simp add: sync_frame_def)

lemma sync_frame_trans: "sync_frame w w1 \<Longrightarrow> sync_frame w1 w2 \<Longrightarrow> sync_frame w w2"
  by (auto simp: sync_frame_def)

lemma sync_frame_log [simp]: "sync_frame w (log_event ev w)"
  by (simp add: sync_frame_def log_event_def)

lemma agent_frame_sync: "agent_frame w w' \<Longrightarrow> sync_frame w w'"
  by (simp add: agent_frame_def sync_frame_def)

lemma fold_max_ge: "a \<le> fold max xs (a::nat)"
proof (induction xs arbitrary: a)
  case Nil
  then show ?case by simp
next
  case (Cons x xs)
  have "a \<le> max x a" by simp
  also have "\<dots> \<le> fold max xs (max x a)" by (rule Cons.IH)
  finally show ?case by simp
qed

lemma fold_max_mem: "x \<in> set xs \<Longrightarrow> x \<le> fold max xs (a::nat)"
proof (induction xs arbitrary: a)
  case Nil
  then show ?case by simp
next
  case (Cons y ys)
  show ?case
  proof (cases "x = y")
    case True
    have "x \<le> max y a" using True by simp
    also have "\<dots> \<le> fold max ys (max y a)" by (rule fold_max_ge)
    finally show ?thesis by simp
  next
    case False
    then have "x \<in> set ys" using Cons.prems by simp
    then show ?thesis using Cons.IH by simp
  qed
qed

lemma next_id_fresh: "next_id ids \<notin> set ids"
proof
  assume "next_id ids \<in> set ids"
  then have "next_id ids \<le> fold max ids 0" by (rule fold_max_mem)
  then show False by (simp add: next_id_def)
qed

lemma set_email_embedding_other:
  assumes "eid \<notin> set (map e_id es)"
  shows "map (\<lambda>e. if e_id e = eid then e\<lparr>e_embedding := Some v\<rparr> else e) es = es"
  using assms by (induction es) auto

lemma insert_then_embed_prefix:
  assumes "e_id new = next_id (map e_id (emails w))"
  shows "prefix (emails w)
           (emails (set_email_embedding (e_id new) v (w'\<lparr>emails := emails w @ [new]\<rparr>)))"
  using set_email_embedding_other [OF next_id_fresh, of "emails w" v] assms
  by (simp add: set_email_embedding_def)

lemma import_email_dup:
  assumes "gid \<in> set (map gmail_id (emails w))"
  shows "import_email env user gid parsed w =
           (Inl (Exn (integrity_error ''ix_emails_gmail_id'')), w)"
  using assms by (simp add: import_email_def insert_email_def Let_def)

lemma exists_email_mono:
  assumes "prefix (emails w) (emails w')" and "exists_email uid gid w"
  shows "exists_email uid gid w'"
  using assms by (auto simp: exists_email_def prefix_def)

lemma import_email_props:
  "sync_frame w (snd (import_email env user gid parsed w))
   \<and> (\<forall>u. fst (import_email env user gid parsed w) = Inr u \<longrightarrow>
          exists_email (u_id user) gid (snd (import_email env user gid parsed w)))"
proof (cases "gid \<in> set (map gmail_id (emails w))")
  case True
  then show ?thesis using import_email_dup [OF True] by simp
next
  case False
  define new where "new =
            \<lparr>e_id = next_id (map e_id (emails w)), e_user_id = u_id user, gmail_id = gid,
             thread_id = p_thread_id parsed, subject = Some (p_subject parsed),
             from_email = Some (p_from_email parsed), to_emails = p_to_emails parsed,
             cc_emails = p_cc_emails parsed, body_text = Some (p_body_text parsed),
             body_html = Some (p_body_html parsed), received_at = p_received_at parsed,
             e_embedding = None\<rparr>"
  define w1 where "w1 = w\<lparr>emails := emails w @ [new]\<rparr>"
  define tc where "tc = p_subject parsed @ '' '' @ p_body_text parsed"
  define step where "step =
     (if strip tc \<noteq> [] then
        (case get_embedding env tc w1 of
           (Inl e, w2) \<Rightarrow> (Inl e, w2)
         | (Inr v, w2) \<Rightarrow> (Inr (), set_email_embedding (e_id new) v w2))
      else (Inr (), w1))"
  define td where "td = \<lparr>td_email_id = gid, td_from = p_from_email parsed,
                              td_subject = p_subject parsed, td_body = p_body_text parsed\<rparr>"
  have ins: "insert_email new w = Inr w1"
    using False by (simp add: insert_email_def new_def w1_def)
  have id: "e_id new = next_id (map e_id (emails w))" by (simp add: new_def)
  have f1: "sync_frame w w1" by (simp add: sync_frame_def w1_def)
  have x1: "exists_email (u_id user) gid w1"
    by (simp add: exists_email_def w1_def new_def)
  have f2: "sync_frame w (snd step)"
  proof (cases "strip tc = []")
    case True
    then show ?thesis using f1 by (simp add: step_def)
  next
    case ne: False
    show ?thesis
    proof (cases "embed env (take 20000 tc)")
      case (Inl e)
      then show ?thesis using ne f1
        by (simp add: step_def get_embedding_eq sync_frame_def log_event_def)
    next
      case (Inr v)
      have "prefix (emails w)
              (emails (set_email_embedding (e_id new) v
                 ((log_event (EmbedCall (take 20000 tc)) w)\<lparr>emails := emails w @ [new]\<rparr>)))"
        by (rule insert_then_embed_prefix [OF id])
      then show ?thesis using ne Inr
        by (simp add: step_def get_embedding_eq sync_frame_def log_event_def w1_def
              set_email_embedding_def)
    qed
  qed
  have x2: "exists_email (u_id user) gid (snd step)"
  proof (cases "strip tc = []")
    case True
    then show ?thesis using x1 by (simp add: step_def)
  next
    case ne: False
    show ?thesis
    proof (cases "embed env (take 20000 tc)")
      case (Inl e)
      then show ?thesis using ne x1
        by (simp add: step_def get_embedding_eq exists_email_def log_event_def)
    next
      case (Inr v)
      then show ?thesis using ne
        by (auto simp: step_def get_embedding_eq exists_email_def log_event_def w1_def
              set_email_embedding_def new_def)
    qed
  qed
  obtain r2 w2 where st: "step = (r2, w2)" by force
  obtain r3 w3 where pr: "process_ongoing_instructions env user ''email'' td w2 = (r3, w3)" by force
  have a3: "agent_frame w2 w3"
    using process_ongoing_instructions_frame [of w2 env user "''email''" td] pr by simp
  have f3: "sync_frame w w3"
    using f2 st agent_frame_sync [OF a3] sync_frame_trans by auto
  have x3: "exists_email (u_id user) gid w3"
    using x2 st a3 by (simp add: exists_email_def agent_frame_def)
  have eq: "import_email env user gid parsed w =
          (case step of
             (Inl e, w2) \<Rightarrow> (Inl e, w2)
           | (Inr u, w2) \<Rightarrow>
               (case process_ongoing_instructions env user ''email'' td w2 of
                  (Inl e, w3) \<Rightarrow> (Inl e, w3)
                | (Inr r, w3) \<Rightarrow> (Inr (), w3)))"
    unfolding import_email_def step_def td_def tc_def
    using ins by (simp add: Let_def new_def [symmetric])
  show ?thesis
  proof (cases r2)
    case (Inl e)
    then show ?thesis using eq st f2 by simp
  next
    case (Inr u)
    then show ?thesis using eq st pr f3 x3 by (cases r3) simp_all
  qed
qed

lemma exists_email_log [simp]: "exists_email uid gid (log_event ev w) = exists_email uid gid w"
  by (simp add: exists_email_def log_event_def)

lemma sync_gmail_messages_props:
  "sync_frame w (snd (sync_gmail_messages env user token msgs n w))
   \<and> (\<forall>n'. fst (sync_gmail_messages env user token msgs n w) = Inr n' \<longrightarrow>
          (\<forall>gid \<in> set msgs.
             exists_email (u_id user) gid (snd (sync_gmail_messages env user token msgs n w))))"
proof (induction msgs arbitrary: n w)
  case Nil
  then show ?case by simp
next
  case (Cons gid msgs)
  show ?case
  proof (cases "exists_email (u_id user) gid w")
    case True
    have "exists_email (u_id user) gid (snd (sync_gmail_messages env user token msgs n w))"
      using Cons.IH [of w n] True exists_email_mono by (auto simp: sync_frame_def)
    then show ?thesis using True Cons.IH [of w n] by simp
  next
    case False
    let ?w1 = "log_event (GmailGet gid) w"
    show ?thesis
    proof (cases "gmail_fetch env token gid")
      case (Inl e)
      then show ?thesis using False by (simp add: Let_def)
    next
      case (Inr parsed)
      obtain r2 w2 where im: "import_email env user gid parsed ?w1 = (r2, w2)" by force
      have f2: "sync_frame ?w1 w2" and x2: "\<forall>u. r2 = Inr u \<longrightarrow> exists_email (u_id user) gid w2"
        using import_email_props [of ?w1 env user gid parsed] im by simp_all
      have f02: "sync_frame w w2" using f2 sync_frame_log sync_frame_trans by blast
      show ?thesis
      proof (cases r2)
        case (Inl e)
        then show ?thesis using False Inr im f02 by (simp add: Let_def)
      next
        case r: (Inr u)
        let ?res = "sync_gmail_messages env user token msgs (Suc n) w2"
        have eq: "sync_gmail_messages env user token (gid # msgs) n w = ?res"
          using False Inr im r by (simp add: Let_def)
        have f3: "sync_frame w2 (snd ?res)" using Cons.IH [of w2 "Suc n"] by simp
        have a: "sync_frame w (snd ?res)" using f02 f3 sync_frame_trans by blast
        have "exists_email (u_id user) gid (snd ?res)"
          using x2 r f3 exists_email_mono by (auto simp: sync_frame_def)
        then show ?thesis using eq a Cons.IH [of w2 "Suc n"] by simp
      qed
    qed
  qed
qed

lemma sync_gmail_messages_skip_all:
  assumes "\<forall>gid \<in> set msgs. exists_email (u_id user) gid w"
  shows "sync_gmail_messages env user token msgs n w = (Inr n, w)"
  using assms by (induction msgs) simp_all

lemma sync_gmail_pages_frame:
  "sync_gmail_pages fuel env user token pt n w = Some (r, w') \<Longrightarrow> sync_frame w w'"
proof (induction fuel arbitrary: pt n w)
  case 0
  then show ?case by simp
next
  case (Suc fuel)
  let ?w1 = "log_event (GmailList None pt) w"
  show ?case
  proof (cases "gmail_list env token None pt")
    case (Inl e)
    then show ?thesis using Suc.prems by (auto simp: Let_def)
  next
    case (Inr page)
    obtain msgs nx where pg: "page = (msgs, nx)" by force
    obtain r2 w2 where ms: "sync_gmail_messages env user token msgs n ?w1 = (r2, w2)" by force
    have "sync_frame ?w1 w2" using sync_gmail_messages_props [of ?w1 env user token msgs n] ms by simp
    then have f2: "sync_frame w w2" using sync_frame_log sync_frame_trans by blast
    show ?thesis
    proof (cases r2)
      case (Inl e)
      then show ?thesis using Suc.prems Inr pg ms f2 by (auto simp: Let_def)
    next
      case r: (Inr n')
      show ?thesis
      proof (cases "truthy nx")
        case True
        then have "sync_gmail_pages fuel env user token nx n' w2 = Some (r, w')"
          using Suc.prems Inr pg ms r by (simp add: Let_def)
        then have "sync_frame w2 w'" by (rule Suc.IH)
        then show ?thesis using f2 sync_frame_trans by blast
      next
        case False
        then show ?thesis using Suc.prems Inr pg ms r f2 by (auto simp: Let_def)
      qed
    qed
  qed
qed

lemma sync_gmail_pages_again:
  assumes "sync_gmail_pages fuel env user token pt n w = Some (Inr n', w')"
      and "prefix (emails w') (emails v)"
  shows "\<exists>evs. sync_gmail_pages fuel env user token pt k v =
                 Some (Inr k, v\<lparr>trace := trace v @ evs\<rparr>) \<and> list_all is_listing evs"
  using assms
proof (induction fuel arbitrary: pt n w v)
  case 0
  then show ?case by simp
next
  case (Suc fuel)
  let ?w1 = "log_event (GmailList None pt) w"
  let ?v1 = "log_event (GmailList None pt) v"
  show ?case
  proof (cases "gmail_list env token None pt")
    case (Inl e)
    then show ?thesis using Suc.prems(1) by (simp add: Let_def)
  next
    case (Inr page)
    obtain msgs nx where pg: "page = (msgs, nx)" by force
    obtain r2 w2 where ms: "sync_gmail_messages env user token msgs n ?w1 = (r2, w2)" by force
    show ?thesis
    proof (cases r2)
      case (Inl e)
      then show ?thesis using Suc.prems(1) Inr pg ms by (auto simp: Let_def split: if_splits)
    next
      case r: (Inr n1)
      have all2: "\<forall>gid \<in> set msgs. exists_email (u_id user) gid w2"
        using sync_gmail_messages_props [of ?w1 env user token msgs n] ms r by simp
      have w2w': "prefix (emails w2) (emails w')"
      proof (cases "truthy nx")
        case True
        then have "sync_gmail_pages fuel env user token nx n1 w2 = Some (Inr n', w')"
          using Suc.prems(1) Inr pg ms r by (simp add: Let_def)
        then show ?thesis using sync_gmail_pages_frame by (auto simp: sync_frame_def)
      next
        case False
        then show ?thesis using Suc.prems(1) Inr pg ms r by (simp add: Let_def)
      qed
      have pv: "prefix (emails w2) (emails v)" using w2w' Suc.prems(2) by auto
      have "\<forall>gid \<in> set msgs. exists_email (u_id user) gid ?v1"
        using all2 pv exists_email_mono by auto
      then have skip: "sync_gmail_messages env user token msgs k ?v1 = (Inr k, ?v1)"
        by (rule sync_gmail_messages_skip_all)
      show ?thesis
      proof (cases "truthy nx")
        case True
        then have run: "sync_gmail_pages fuel env user token nx n1 w2 = Some (Inr n', w')"
          using Suc.prems(1) Inr pg ms r by (simp add: Let_def)
        have "prefix (emails w') (emails ?v1)" using Suc.prems(2) by (simp add: log_event_def)
        from Suc.IH [OF run this]
        obtain evs where
          "sync_gmail_pages fuel env user token nx k ?v1 = Some (Inr k, ?v1\<lparr>trace := trace ?v1 @ evs\<rparr>)"
          and li: "list_all is_listing evs"
          by blast
        then have "sync_gmail_pages (Suc fuel) env user token pt k v =
                     Some (Inr k, v\<lparr>trace := trace v @ (GmailList None pt # evs)\<rparr>)"
          using Inr pg skip True by (simp add: Let_def log_event_def)
        moreover have "list_all is_listing (GmailList None pt # evs)"
          using li by (simp add: is_listing_def)
        ultimately show ?thesis by blast
      next
        case False
        then have "sync_gmail_pages (Suc fuel) env user token pt k v =
                     Some (Inr k, v\<lparr>trace := trace v @ [GmailList None pt]\<rparr>)"
          using Inr pg skip by (simp add: Let_def log_event_def)
        moreover have "list_all is_listing [GmailList None pt]" by (simp add: is_listing_def)
        ultimately show ?thesis by blast
      qed
    qed
  qed
qed

lemma hs_frame_refl [simp]: "hs_frame w w"
  by (simp add: hs_frame_def)

lemma hs_frame_trans: "hs_frame w w1 \<Longrightarrow> hs_frame w1 w2 \<Longrightarrow> hs_frame w w2"
  by (auto simp: hs_frame_def)

lemma hs_frame_log [simp]: "hs_frame w (log_event ev w)"
  by (simp add: hs_frame_def log_event_def)

lemma find_contact_None: "find_contact uid hid view = None \<longleftrightarrow> \<not> exists_contact uid hid view"
  by (auto simp: find_contact_def exists_contact_def find_None_iff)

lemma find_contact_Some:
  "find_contact uid hid view = Some c \<Longrightarrow> c \<in> set view \<and> c_user_id c = uid \<and> hubspot_id c = hid"
  by (auto simp: find_contact_def find_Some_iff)

lemma exists_contact_keys:
  "exists_contact uid hid view \<longleftrightarrow> (uid, hid) \<in> set (contact_keys view)"
  by (auto simp: exists_contact_def contact_keys_def)

lemma contact_keys_update [simp]:
  "contact_keys (update_existing existing cd view) = contact_keys view"
  by (simp add: contact_keys_def update_existing_def comp_def)

lemma contact_keys_embedding [simp]:
  "contact_keys (set_contact_embedding cid v view) = contact_keys view"
  by (simp add: contact_keys_def set_contact_embedding_def comp_def)

lemma contact_keys_append [simp]:
  "contact_keys (view @ [c]) = contact_keys view @ [(c_user_id c, hubspot_id c)]"
  by (simp add: contact_keys_def)

text \<open>The result of the contacts loop, in one statement.\<close>

lemma sync_hubspot_contacts_props:
  "hs_frame w (snd (sync_hubspot_contacts env user token cds n view w))
   \<and> (\<forall>n' view'. fst (sync_hubspot_contacts env user token cds n view w) = Inr (n', view') \<longrightarrow>
          prefix (contact_keys view) (contact_keys view') \<and>
          (\<forall>cd \<in> set cds. (u_id user, hs_id cd) \<in> set (contact_keys view')) \<and>
          (contact_keys (contacts w) = contact_keys view \<longrightarrow>
             contact_keys (contacts (snd (sync_hubspot_contacts env user token cds n view w))) =
               contact_keys view'))"
proof (induction cds arbitrary: n view w)
  case Nil
  then show ?case by simp
next
  case (Cons cd rest)
  show ?case
  proof (cases "find_contact (u_id user) (hs_id cd) view")
    case (Some existing)
    let ?view1 = "update_existing existing cd view"
    let ?res = "sync_hubspot_contacts env user token rest n ?view1 w"
    have eq: "sync_hubspot_contacts env user token (cd # rest) n view w = ?res"
      using Some by simp
    have k: "(u_id user, hs_id cd) \<in> set (contact_keys view)"
      using find_contact_Some [OF Some] exists_contact_keys [of "u_id user" "hs_id cd" view]
      by (auto simp: exists_contact_def)
    have "\<forall>n' view'. fst ?res = Inr (n', view') \<longrightarrow>
            prefix (contact_keys view) (contact_keys view') \<and>
            (\<forall>x \<in> set (cd # rest). (u_id user, hs_id x) \<in> set (contact_keys view')) \<and>
            (contact_keys (contacts w) = contact_keys view \<longrightarrow>
               contact_keys (contacts (snd ?res)) = contact_keys view')"
      using Cons.IH [of w n ?view1] k by (auto simp: prefix_def)
    then show ?thesis using eq Cons.IH [of w n ?view1] by simp
  next
    case None
    let ?w1 = "log_event (HubspotNotes (hs_id cd)) w"
    show ?thesis
    proof (cases "hubspot_notes env token (hs_id cd)")
      case (Inl e)
      then show ?thesis using None by (simp add: Let_def)
    next
      case (Inr notes_data)
      define obj where "obj =
                         \<lparr>c_id = next_id (map c_id view), c_user_id = u_id user,
                          hubspot_id = hs_id cd, c_email = hs_email cd,
                          first_name = hs_firstname cd,
                          last_name = hs_lastname cd, phone = hs_phone cd,
                          company = hs_company cd, c_notes = Some (join nl notes_data),
                          raw_data = Some cd, c_embedding = None\<rparr>"
      define tcx where "tcx = contact_text cd (join nl notes_data)"
      have ok: "c_user_id obj = u_id user" "hubspot_id obj = hs_id cd" "c_id obj = next_id (map c_id view)"
        by (simp_all add: obj_def)
      show ?thesis
      proof (cases "hubspot_id obj \<in> set (map hubspot_id view)")
        case True
        then have "commit_new_contact obj view ?w1 = Inl (Exn (integrity_error ''ix_contacts_hubspot_id''))"
          by (simp add: commit_new_contact_def)
        then have "sync_hubspot_contacts env user token (cd # rest) n view w =
                     (Inl (Exn (integrity_error ''ix_contacts_hubspot_id'')), ?w1)"
          using None Inr by (simp add: Let_def obj_def [symmetric])
        then show ?thesis by simp
      next
        case False
        let ?view1 = "view @ [obj]"
        let ?w2 = "?w1\<lparr>contacts := ?view1\<rparr>"
        have cm: "commit_new_contact obj view ?w1 = Inr (?view1, ?w2)"
          using False by (simp add: commit_new_contact_def)
        have f2: "hs_frame w ?w2" by (simp add: hs_frame_def log_event_def)
        show ?thesis
        proof (cases "strip tcx = []")
          case True
          let ?res = "sync_hubspot_contacts env user token rest (Suc n) ?view1 ?w2"
          have eq: "sync_hubspot_contacts env user token (cd # rest) n view w = ?res"
            using None Inr cm True by (simp add: Let_def obj_def [symmetric] tcx_def [symmetric])
          have f: "hs_frame w (snd ?res)"
            using Cons.IH [of ?w2 "Suc n" ?view1] f2 hs_frame_trans by blast
          have "\<forall>n' view'. fst ?res = Inr (n', view') \<longrightarrow>
                  prefix (contact_keys view) (contact_keys view') \<and>
                  (\<forall>x \<in> set (cd # rest). (u_id user, hs_id x) \<in> set (contact_keys view')) \<and>
                  (contact_keys (contacts w) = contact_keys view \<longrightarrow>
                     contact_keys (contacts (snd ?res)) = contact_keys view')"
            using Cons.IH [of ?w2 "Suc n" ?view1] ok by (auto simp: prefix_def)
          then show ?thesis using eq f by simp
        next
          case ne: False
          show ?thesis
          proof (cases "embed env (take 20000 tcx)")
            case (Inl e)
            then have "sync_hubspot_contacts env user token (cd # rest) n view w =
                         (Inl e, log_event (EmbedCall (take 20000 tcx)) ?w2)"
              using None Inr cm ne
              by (simp add: Let_def obj_def [symmetric] tcx_def [symmetric] get_embedding_eq)
            then show ?thesis by (simp add: hs_frame_def log_event_def)
          next
            case emb: (Inr v)
            let ?w3 = "log_event (EmbedCall (take 20000 tcx)) ?w2"
            let ?view2 = "set_contact_embedding (c_id obj) v ?view1"
            let ?res = "sync_hubspot_contacts env user token rest (Suc n) ?view2 (?w3\<lparr>contacts := ?view2\<rparr>)"
            have eq: "sync_hubspot_contacts env user token (cd # rest) n view w = ?res"
              using None Inr cm ne emb
              by (simp add: Let_def obj_def [symmetric] tcx_def [symmetric] get_embedding_eq)
            have "hs_frame w (?w3\<lparr>contacts := ?view2\<rparr>)" by (simp add: hs_frame_def log_event_def)
            then have f: "hs_frame w (snd ?res)"
              using Cons.IH [of "?w3\<lparr>contacts := ?view2\<rparr>" "Suc n" ?view2] hs_frame_trans by blast
            have "\<forall>n' view'. fst ?res = Inr (n', view') \<longrightarrow>
                  prefix (contact_keys view) (contact_keys view') \<and>
                  (\<forall>x \<in> set (cd # rest). (u_id user, hs_id x) \<in> set (contact_keys view')) \<and>
                  (contact_keys (contacts w) = contact_keys view \<longrightarrow>
                     contact_keys (contacts (snd ?res)) = contact_keys view')"
              using Cons.IH [of "?w3\<lparr>contacts := ?view2\<rparr>" "Suc n" ?view2] ok
              by (auto simp: prefix_def)
            then show ?thesis using eq f by simp
          qed
        qed
      qed
    qed
  qed
qed

lemma sync_hubspot_contacts_all_exist:
  assumes "\<forall>cd \<in> set cds. (u_id user, hs_id cd) \<in> set (contact_keys view)"
  shows "\<exists>view'. sync_hubspot_contacts env user token cds n view w = (Inr (n, view'), w) \<and>
           contact_keys view' = contact_keys view"
  using assms
proof (induction cds arbitrary: view)
  case Nil
  then show ?case by simp
next
  case (Cons cd rest)
  have "exists_contact (u_id user) (hs_id cd) view"
    using Cons.prems by (simp add: exists_contact_keys)
  then obtain existing where f: "find_contact (u_id user) (hs_id cd) view = Some existing"
    using find_contact_None [of "u_id user" "hs_id cd" view] by (cases "find_contact (u_id user) (hs_id cd) view") auto
  have "\<forall>x \<in> set rest. (u_id user, hs_id x) \<in> set (contact_keys (update_existing existing cd view))"
    using Cons.prems by simp
  from Cons.IH [OF this] show ?case using f by simp
qed

lemma sync_hubspot_pages_props:
  assumes "sync_hubspot_pages fuel env user token after n view w = Some (r, w')"
  shows "hs_frame w w' \<and>
         (\<forall>n'. r = Inr n' \<longrightarrow> contact_keys (contacts w) = contact_keys view \<longrightarrow>
            prefix (contact_keys view) (contact_keys (contacts w')))"
  using assms
proof (induction fuel arbitrary: after n view w)
  case 0
  then show ?case by simp
next
  case (Suc fuel)
  let ?w1 = "log_event (HubspotList after) w"
  have c1: "contacts ?w1 = contacts w" by (simp add: log_event_def)
  show ?case
  proof (cases "hubspot_list env token after")
    case (Inl e)
    then show ?thesis using Suc.prems by (auto simp: Let_def)
  next
    case (Inr page)
    obtain cds nx where pg: "page = (cds, nx)" by force
    obtain r2 w2 where ms: "sync_hubspot_contacts env user token cds n view ?w1 = (r2, w2)" by force
    have "hs_frame ?w1 w2"
      using sync_hubspot_contacts_props [of ?w1 env user token cds n view] ms by simp
    then have f2: "hs_frame w w2" using hs_frame_log hs_frame_trans by blast
    show ?thesis
    proof (cases r2)
      case (Inl e)
      then show ?thesis using Suc.prems Inr pg ms f2 by (auto simp: Let_def)
    next
      case r2: (Inr nv)
      obtain n1 view1 where nv: "nv = (n1, view1)" by force
      have p1: "prefix (contact_keys view) (contact_keys view1)"
        and k1: "contact_keys (contacts w) = contact_keys view \<longrightarrow>
                   contact_keys (contacts w2) = contact_keys view1"
        using sync_hubspot_contacts_props [of ?w1 env user token cds n view] ms r2 nv c1
        by simp_all
      show ?thesis
      proof (cases "truthy nx")
        case True
        then have run: "sync_hubspot_pages fuel env user token nx n1 view1 w2 = Some (r, w')"
          using Suc.prems Inr pg ms r2 nv by (simp add: Let_def)
        have ih: "hs_frame w2 w' \<and>
         (\<forall>n'. r = Inr n' \<longrightarrow> contact_keys (contacts w2) = contact_keys view1 \<longrightarrow>
            prefix (contact_keys view1) (contact_keys (contacts w')))"
          by (rule Suc.IH [OF run])
        then show ?thesis using f2 hs_frame_trans p1 k1 by (auto simp: prefix_def)
      next
        case False
        then have "r = Inr n1" "w' = w2"
          using Suc.prems Inr pg ms r2 nv by (simp_all add: Let_def)
        then show ?thesis using f2 p1 k1 by auto
      qed
    qed
  qed
qed

lemma sync_hubspot_pages_again:
  assumes "sync_hubspot_pages fuel env user token after n view w = Some (Inr n', w')"
      and "contact_keys (contacts w) = contact_keys view"
      and "set (contact_keys (contacts w')) \<subseteq> set (contact_keys vview)"
  shows "\<exists>evs. sync_hubspot_pages fuel env user token after k vview v =
                 Some (Inr k, v\<lparr>trace := trace v @ evs\<rparr>) \<and> list_all is_listing evs"
  using assms
proof (induction fuel arbitrary: after n view w vview v)
  case 0
  then show ?case by simp
next
  case (Suc fuel)
  let ?w1 = "log_event (HubspotList after) w"
  let ?v1 = "log_event (HubspotList after) v"
  have c1: "contacts ?w1 = contacts w" by (simp add: log_event_def)
  show ?case
  proof (cases "hubspot_list env token after")
    case (Inl e)
    then show ?thesis using Suc.prems(1) by (simp add: Let_def)
  next
    case (Inr page)
    obtain cds nx where pg: "page = (cds, nx)" by force
    obtain r2 w2 where ms: "sync_hubspot_contacts env user token cds n view ?w1 = (r2, w2)" by force
    show ?thesis
    proof (cases r2)
      case (Inl e)
      then show ?thesis using Suc.prems(1) Inr pg ms by (auto simp: Let_def)
    next
      case r2: (Inr nv)
      obtain n1 view1 where nv: "nv = (n1, view1)" by force
      have all1: "\<forall>cd \<in> set cds. (u_id user, hs_id cd) \<in> set (contact_keys view1)"
        and k1: "contact_keys (contacts w2) = contact_keys view1"
        using sync_hubspot_contacts_props [of ?w1 env user token cds n view] ms r2 nv c1 Suc.prems(2)
        by simp_all
      have sub: "set (contact_keys view1) \<subseteq> set (contact_keys (contacts w'))"
      proof (cases "truthy nx")
        case True
        then have run: "sync_hubspot_pages fuel env user token nx n1 view1 w2 = Some (Inr n', w')"
          using Suc.prems(1) Inr pg ms r2 nv by (simp add: Let_def)
        show ?thesis using sync_hubspot_pages_props [OF run] k1 by (auto simp: prefix_def)
      next
        case False
        then have "w' = w2" using Suc.prems(1) Inr pg ms r2 nv by (simp add: Let_def)
        then show ?thesis using k1 by simp
      qed
      have "\<forall>cd \<in> set cds. (u_id user, hs_id cd) \<in> set (contact_keys vview)"
        using all1 sub Suc.prems(3) by blast
      from sync_hubspot_contacts_all_exist [OF this, of env token k ?v1]
      obtain vview1 where skip: "sync_hubspot_contacts env user token cds k vview ?v1 = (Inr (k, vview1), ?v1)"
        and kv: "contact_keys vview1 = contact_keys vview" by blast
      show ?thesis
      proof (cases "truthy nx")
        case True
        then have run: "sync_hubspot_pages fuel env user token nx n1 view1 w2 = Some (Inr n', w')"
          using Suc.prems(1) Inr pg ms r2 nv by (simp add: Let_def)
        have "set (contact_keys (contacts w')) \<subseteq> set (contact_keys vview1)"
          using Suc.prems(3) kv by simp
        from Suc.IH [OF run k1 this, of ?v1]
        obtain evs where
          "sync_hubspot_pages fuel env user token nx k vview1 ?v1 =
             Some (Inr k, ?v1\<lparr>trace := trace ?v1 @ evs\<rparr>)"
          and li: "list_all is_listing evs"
          by blast
        then have "sync_hubspot_pages (Suc fuel) env user token after k vview v =
                     Some (Inr k, v\<lparr>trace := trace v @ (HubspotList after # evs)\<rparr>)"
          using Inr pg skip True by (simp add: Let_def log_event_def)
        moreover have "list_all is_listing (HubspotList after # evs)"
          using li by (simp add: is_listing_def)
        ultimately show ?thesis by blast
      next
        case False
        then have "sync_hubspot_pages (Suc fuel) env user token after k vview v =
                     Some (Inr k, v\<lparr>trace := trace v @ [HubspotList after]\<rparr>)"
          using Inr pg skip by (simp add: Let_def log_event_def)
        moreover have "list_all is_listing [HubspotList after]" by (simp add: is_listing_def)
        ultimately show ?thesis by blast
      qed
    qed
  qed
qed

lemma poll_messages_frame:
  "sync_frame w (snd (poll_messages env user token cutoff msgs n w))"
proof (induction msgs arbitrary: n w)
  case Nil
  then show ?case by simp
next
  case (Cons gid msgs)
  show ?case
  proof (cases "exists_email (u_id user) gid w")
    case True
    then show ?thesis using Cons.IH [of w n] by simp
  next
    case False
    let ?w1 = "log_event (GmailGet gid) w"
    have f1: "sync_frame w ?w1" by simp
    show ?thesis
    proof (cases "gmail_fetch env token gid")
      case (Inl e)
      then show ?thesis using False by (simp add: Let_def)
    next
      case (Inr parsed)
      show ?thesis
      proof (cases "case p_received_at parsed of None \<Rightarrow> False | Some t \<Rightarrow> t < cutoff")
        case True
        have "sync_frame w (snd (poll_messages env user token cutoff msgs n ?w1))"
          using Cons.IH [of ?w1 n] f1 sync_frame_trans by blast
        then show ?thesis using False Inr True by (simp add: Let_def)
      next
        case old: False
        obtain r2 w2 where im: "import_email env user gid parsed ?w1 = (r2, w2)" by force
        have "sync_frame ?w1 w2" using import_email_props [of ?w1 env user gid parsed] im by simp
        then have f02: "sync_frame w w2" using f1 sync_frame_trans by blast
        show ?thesis
        proof (cases r2)
          case (Inl e)
          then show ?thesis using False Inr old im f02 by (simp add: Let_def)
        next
          case r: (Inr u)
          have "sync_frame w (snd (poll_messages env user token cutoff msgs (Suc n) w2))"
            using Cons.IH [of w2 "Suc n"] f02 sync_frame_trans by blast
          then show ?thesis using False Inr old im r by (simp add: Let_def)
        qed
      qed
    qed
  qed
qed

lemma poll_pages_frame:
  "poll_pages fuel env user token query cutoff pt n w = Some (r, w') \<Longrightarrow> sync_frame w w'"
proof (induction fuel arbitrary: pt n w)
  case 0
  then show ?case by simp
next
  case (Suc fuel)
  let ?w1 = "log_event (GmailList (Some query) pt) w"
  have f1: "sync_frame w ?w1" by simp
  show ?case
  proof (cases "gmail_list env token (Some query) pt")
    case (Inl e)
    then show ?thesis using Suc.prems by (auto simp: Let_def)
  next
    case (Inr page)
    obtain msgs nx where pg: "page = (msgs, nx)" by force
    show ?thesis
    proof (cases "msgs = []")
      case True
      then show ?thesis using Suc.prems Inr pg by (auto simp: Let_def)
    next
      case ne: False
      obtain r2 w2 where ms: "poll_messages env user token cutoff msgs n ?w1 = (r2, w2)" by force
      have "sync_frame ?w1 w2" using poll_messages_frame [of ?w1 env user token cutoff msgs n] ms by simp
      then have f2: "sync_frame w w2" using f1 sync_frame_trans by blast
      show ?thesis
      proof (cases r2)
        case (Inl e)
        then show ?thesis using Suc.prems Inr pg ne ms f2 by (auto simp: Let_def)
      next
        case r: (Inr n')
        show ?thesis
        proof (cases "truthy nx")
          case True
          then have "poll_pages fuel env user token query cutoff nx n' w2 = Some (r, w')"
            using Suc.prems Inr pg ne ms r by (simp add: Let_def)
          then have "sync_frame w2 w'" by (rule Suc.IH)
          then show ?thesis using f2 sync_frame_trans by blast
        next
          case False
          then show ?thesis using Suc.prems Inr pg ne ms r f2 by (auto simp: Let_def)
        qed
      qed
    qed
  qed
qed

lemma poll_new_emails_frame:
  assumes "poll_new_emails fuel env user_id w = Some w'"
  shows "sync_frame w w'"
proof (cases "find_user user_id w")
  case None
  then show ?thesis using assms by (simp add: poll_new_emails_def)
next
  case (Some user)
  show ?thesis
  proof (cases "google_service user")
    case None
    then show ?thesis using assms Some by (simp add: poll_new_emails_def)
  next
    case tok: (Some token)
    show ?thesis
    proof (cases "is_syncing Gmail user_id (sync_status w)")
      case True
      then show ?thesis using assms Some tok by (simp add: poll_new_emails_def)
    next
      case False
      let ?run = "poll_pages fuel env user token (''after:'' @ str_int (utcnow env - 600))
                    (utcnow env - 600) None 0 w"
      obtain r w1 where run: "?run = Some (r, w1)" and w': "w' = w1"
        using assms Some tok False
        by (auto simp: poll_new_emails_def Let_def split: option.splits)
      show ?thesis using poll_pages_frame [OF run] w' by simp
    qed
  qed
qed

lemma entry_of_mark_started [simp]:
  "entry_of src uid (mark_started src uid env ss) =
     Some \<lparr>syncing = True, started_at = utcnow_iso env, completed_at = None,
           imported_count = None, sync_error = None\<rparr>"
  by (simp add: entry_of_def mark_started_def)

lemma entry_of_mark_completed:
  "entry_of src uid (mark_completed src uid n env ss) =
     map_option (\<lambda>en. en\<lparr>syncing := False, completed_at := Some (utcnow_iso env),
                           imported_count := Some n\<rparr>) (entry_of src uid ss)"
  by (simp add: entry_of_def mark_completed_def split: option.splits)

lemma entry_of_mark_failed:
  "entry_of src uid (mark_failed src uid msg env ss) =
     map_option (\<lambda>en. en\<lparr>syncing := False, sync_error := Some msg,
                           completed_at := Some (utcnow_iso env)\<rparr>) (entry_of src uid ss)"
  by (simp add: entry_of_def mark_failed_def split: option.splits)

lemma is_syncing_entry:
  "is_syncing src uid ss \<longleftrightarrow> (case entry_of src uid ss of None \<Rightarrow> False | Some en \<Rightarrow> syncing en)"
  by (simp add: is_syncing_def entry_of_def split: option.splits)

text \<open>
  Claim C2, as amended.  The incremental poll reads SyncState before any call to Gmail: when
  the user's Gmail entry is marked syncing it returns at once, leaving the world, trace
  included, exactly as it was.  The poll never writes SyncState.  The full-sync endpoints
  do not read SyncState: for a connected user they always replace the entry by a fresh one
  marked syncing and schedule a background run.
\<close>

theorem single_flight_poll:
  "(is_syncing Gmail user_id (sync_status w) \<longrightarrow> poll_new_emails fuel env user_id w = Some w)
   \<and> (\<forall>w'. poll_new_emails fuel env user_id w = Some w' \<longrightarrow> sync_status w' = sync_status w)
   \<and> (truthy (google_access_token user) \<longrightarrow>
        sync_gmail env user w =
          (Inr ''Gmail sync started'',
           w\<lparr>sync_status := mark_started Gmail (u_id user) env (sync_status w)\<rparr>,
           [SyncGmailBackground (u_id user)]))
   \<and> (truthy (hubspot_access_token user) \<longrightarrow>
        sync_hubspot env user w =
          (Inr ''HubSpot sync started'',
           w\<lparr>sync_status := mark_started Hubspot (u_id user) env (sync_status w)\<rparr>,
           [SyncHubspotBackground (u_id user)]))
   \<and> is_syncing src (u_id user) (mark_started src (u_id user) env (sync_status w))"
proof -
  have a: "is_syncing Gmail user_id (sync_status w) \<longrightarrow> poll_new_emails fuel env user_id w = Some w"
    by (simp add: poll_new_emails_def split: option.splits)
  have b: "\<forall>w'. poll_new_emails fuel env user_id w = Some w' \<longrightarrow> sync_status w' = sync_status w"
    using poll_new_emails_frame by (auto simp: sync_frame_def)
  have c: "truthy (google_access_token user) \<longrightarrow>
        sync_gmail env user w =
          (Inr ''Gmail sync started'',
           w\<lparr>sync_status := mark_started Gmail (u_id user) env (sync_status w)\<rparr>,
           [SyncGmailBackground (u_id user)])"
    by (simp add: sync_gmail_def)
  have d: "truthy (hubspot_access_token user) \<longrightarrow>
        sync_hubspot env user w =
          (Inr ''HubSpot sync started'',
           w\<lparr>sync_status := mark_started Hubspot (u_id user) env (sync_status w)\<rparr>,
           [SyncHubspotBackground (u_id user)])"
    by (simp add: sync_hubspot_def)
  have e: "is_syncing src (u_id user) (mark_started src (u_id user) env (sync_status w))"
    by (simp add: is_syncing_entry)
  show ?thesis using a b c d e by blast
qed

theorem single_flight_poll_witness:
  "poll_new_emails 5 env0 1 world_busy = Some world_busy
   \<and> fst (sync_gmail env0 user0 world_busy) = Inr ''Gmail sync started''"
proof -
  have h1: "is_syncing Gmail 1 (sync_status world_busy)"
    by (simp add: is_syncing_def world_busy_def busy_entry_def)
  have h2: "truthy (google_access_token user0)" by (simp add: truthy_def user0_def)
  note T = single_flight_poll [of 1 world_busy 5 env0 user0 Gmail]
  have p: "poll_new_emails 5 env0 1 world_busy = Some world_busy"
    using conjunct1 [OF T] h1 by (rule mp)
  have g: "fst (sync_gmail env0 user0 world_busy) = Inr ''Gmail sync started''"
    using mp [OF conjunct1 [OF conjunct2 [OF conjunct2 [OF T]]] h2] by simp
  show ?thesis using p g by (rule conjI)
qed

text \<open>
  The claim as stated fails for the full-sync endpoint.  A Gmail sync of user 1 is marked
  syncing; \<open>sync_gmail\<close> for the same user nevertheless rewrites the entry (a new
  \<open>started_at\<close>), schedules a run, and that run lists the mailbox.
\<close>

theorem single_flight_poll_counterexample:
  "is_syncing Gmail 1 (sync_status world_busy)
   \<and> snd (snd (sync_gmail env0 user0 world_busy)) = [SyncGmailBackground 1]
   \<and> map_option started_at (entry_of Gmail 1 (sync_status world_busy)) = Some ''2025-12-31T23:59:00''
   \<and> map_option started_at
        (entry_of Gmail 1 (sync_status (fst (snd (sync_gmail env0 user0 world_busy))))) =
        Some ''2026-01-01T00:00:00''
   \<and> map_option trace
        (sync_gmail_background (Suc 0) env0 1 (fst (snd (sync_gmail env0 user0 world_busy)))) =
        Some [GmailList None None]"
proof -
  have a: "is_syncing Gmail 1 (sync_status world_busy)"
    by (simp add: is_syncing_def world_busy_def busy_entry_def)
  have t: "truthy (google_access_token user0)" by (simp add: truthy_def user0_def)
  have s: "sync_gmail env0 user0 world_busy =
          (Inr ''Gmail sync started'',
           world_busy\<lparr>sync_status := mark_started Gmail 1 env0 (sync_status world_busy)\<rparr>,
           [SyncGmailBackground 1])"
    using t by (simp add: sync_gmail_def user0_def)
  have b: "map_option started_at (entry_of Gmail 1 (sync_status world_busy)) = Some ''2025-12-31T23:59:00''"
    by (simp add: entry_of_def world_busy_def busy_entry_def)
  let ?w = "world_busy\<lparr>sync_status := mark_started Gmail 1 env0 (sync_status world_busy)\<rparr>"
  have c: "map_option started_at (entry_of Gmail 1 (sync_status ?w)) = Some ''2026-01-01T00:00:00''"
    by (simp add: env0_def)
  have s1: "snd (snd (sync_gmail env0 user0 world_busy)) = [SyncGmailBackground 1]"
    using s by simp
  have s2: "fst (snd (sync_gmail env0 user0 world_busy)) = ?w"
    using s by simp
  have fu: "find_user 1 ?w = Some user0"
    by (simp add: find_user_def world_busy_def world0_def user0_def)
  have gs: "google_service user0 = Some ''tok''"
    by (simp add: google_service_def truthy_def user0_def)
  have gl: "gmail_list env0 ''tok'' None None = Inr ([], None)" by (simp add: env0_def)
  have p: "sync_gmail_pages (Suc 0) env0 user0 ''tok'' None 0 ?w =
             Some (Inr 0, log_event (GmailList None None) ?w)"
    using gl by (simp add: Let_def truthy_def)
  have tr: "trace (log_event (GmailList None None) ?w) = [GmailList None None]"
    by (simp add: log_event_def world_busy_def world0_def)
  have d: "map_option trace (sync_gmail_background (Suc 0) env0 1 ?w) = Some [GmailList None None]"
    unfolding sync_gmail_background_def using fu gs p tr by simp
  show ?thesis unfolding s1 s2 using a b c d by blast
qed

lemma find_user_id: "find_user uid w = Some user \<Longrightarrow> u_id user = uid"
  by (auto simp: find_user_def find_Some_iff)


lemma import_email_ok:
  assumes "gid \<notin> set (map gmail_id (emails w))"
      and "\<forall>t. \<exists>v. embed env t = Inr v"
  shows "\<exists>w'. import_email env user gid parsed w = (Inr (), w')"
proof -
  define new where "new =
            \<lparr>e_id = next_id (map e_id (emails w)), e_user_id = u_id user, gmail_id = gid,
             thread_id = p_thread_id parsed, subject = Some (p_subject parsed),
             from_email = Some (p_from_email parsed), to_emails = p_to_emails parsed,
             cc_emails = p_cc_emails parsed, body_text = Some (p_body_text parsed),
             body_html = Some (p_body_html parsed), received_at = p_received_at parsed,
             e_embedding = None\<rparr>"
  define w1 where "w1 = w\<lparr>emails := emails w @ [new]\<rparr>"
  define tc where "tc = p_subject parsed @ '' '' @ p_body_text parsed"
  define td where "td = \<lparr>td_email_id = gid, td_from = p_from_email parsed,
                              td_subject = p_subject parsed, td_body = p_body_text parsed\<rparr>"
  have ins: "insert_email new w = Inr w1"
    using assms(1) by (simp add: insert_email_def new_def w1_def)
  obtain v where v: "embed env (take 20000 tc) = Inr v" using assms(2) by blast
  show ?thesis
  proof (cases "strip tc = []")
    case True
    obtain r3 w3 where pr: "process_ongoing_instructions env user ''email'' td w1 = (r3, w3)" by force
    obtain x where x: "r3 = Inr x"
      using process_ongoing_instructions_returns [of env user "''email''" td w1] pr by auto
    have "import_email env user gid parsed w = (Inr (), w3)"
      unfolding import_email_def
      using ins True pr x unfolding tc_def td_def
      by (simp add: Let_def new_def [symmetric])
    then show ?thesis by blast
  next
    case False
    define w2 where
      "w2 = set_email_embedding (e_id new) v (log_event (EmbedCall (take 20000 tc)) w1)"
    obtain r3 w3 where pr: "process_ongoing_instructions env user ''email'' td w2 = (r3, w3)" by force
    obtain x where x: "r3 = Inr x"
      using process_ongoing_instructions_returns [of env user "''email''" td w2] pr by auto
    have "import_email env user gid parsed w = (Inr (), w3)"
      unfolding import_email_def
      using ins False pr x v unfolding tc_def td_def w2_def
      by (simp add: Let_def new_def [symmetric] get_embedding_eq)
    then show ?thesis by blast
  qed
qed



text \<open>
  The early return of the background task is outside both writes: a run that finds the
  user without a token returns with the entry still marked syncing.
\<close>

lemma sync_gmail_background_early_return:
  "sync_gmail_background fuel env0 1
     (world_busy\<lparr>users := [user0\<lparr>google_access_token := None\<rparr>]\<rparr>) =
     Some (world_busy\<lparr>users := [user0\<lparr>google_access_token := None\<rparr>]\<rparr>)
   \<and> is_syncing Gmail 1 (sync_status (world_busy\<lparr>users := [user0\<lparr>google_access_token := None\<rparr>]\<rparr>))"
  by (simp add: sync_gmail_background_def find_user_def google_service_def truthy_def user0_def
        is_syncing_def world_busy_def busy_entry_def)

lemma sync_gmail_messages_append_skip:
  assumes "\<forall>g \<in> set pre. exists_email (u_id user) g w"
  shows "sync_gmail_messages env user token (pre @ rest) n w =
           sync_gmail_messages env user token rest n w"
  using assms by (induction pre) simp_all

lemma sync_hubspot_contacts_dup:
  assumes "find_contact (u_id user) (hs_id cd) view = None"
    and "\<exists>x \<in> set view. hubspot_id x = hs_id cd"
    and "hubspot_notes env token (hs_id cd) = Inr notes_data"
  shows "sync_hubspot_contacts env user token (cd # rest) n view w =
           (Inl (Exn (integrity_error ''ix_contacts_hubspot_id'')),
            log_event (HubspotNotes (hs_id cd)) w)"
proof -
  have "hs_id cd \<in> set (map hubspot_id view)" using assms(2) by force
  then show ?thesis using assms(1,3) by (simp add: commit_new_contact_def Let_def)
qed



lemma sync_gmail_messages_drop_existing:
  assumes "exists_email (u_id user) gid w"
  shows "sync_gmail_messages env user token (pre @ gid # post) n w =
           sync_gmail_messages env user token (pre @ post) n w"
  using assms
proof (induction pre arbitrary: n w)
  case Nil
  then show ?case by simp
next
  case (Cons g pre)
  show ?case
  proof (cases "exists_email (u_id user) g w")
    case True
    then show ?thesis using Cons.IH [OF Cons.prems] by simp
  next
    case False
    let ?w1 = "log_event (GmailGet g) w"
    show ?thesis
    proof (cases "gmail_fetch env token g")
      case (Inl e)
      then show ?thesis using False by (simp add: Let_def)
    next
      case (Inr parsed)
      obtain r w2 where im: "import_email env user g parsed ?w1 = (r, w2)" by force
      have "sync_frame ?w1 w2" using import_email_props [of ?w1 env user g parsed] im by simp
      then have "prefix (emails w) (emails w2)" by (simp add: sync_frame_def log_event_def)
      then have ex: "exists_email (u_id user) gid w2"
        using Cons.prems exists_email_mono by blast
      show ?thesis
      proof (cases r)
        case (Inl e)
        then show ?thesis using False Inr im by (simp add: Let_def)
      next
        case r: (Inr u)
        show ?thesis using False Inr im r Cons.IH [OF ex] by (simp add: Let_def)
      qed
    qed
  qed
qed

lemma find_map_same:
  assumes "\<And>x. P (f x) = P x"
  shows "find P (map f xs) = map_option f (find P xs)"
  using assms by (induction xs) simp_all

lemma find_contact_update:
  assumes "find_contact uid hid view = Some ex"
  shows "find_contact uid hid (update_existing ex cd view) =
           Some (ex\<lparr>c_email := hs_email cd, first_name := hs_firstname cd,
                    last_name := hs_lastname cd, phone := hs_phone cd,
                    company := hs_company cd, raw_data := Some cd\<rparr>)"
proof -
  let ?f = "\<lambda>c. if c_id c = c_id ex
               then c\<lparr>c_email := hs_email cd, first_name := hs_firstname cd,
                      last_name := hs_lastname cd, phone := hs_phone cd,
                      company := hs_company cd, raw_data := Some cd\<rparr>
               else c"
  have "find (\<lambda>c. c_user_id c = uid \<and> hubspot_id c = hid) (map ?f view) =
          map_option ?f (find (\<lambda>c. c_user_id c = uid \<and> hubspot_id c = hid) view)"
    by (rule find_map_same) simp
  then show ?thesis using assms by (simp add: find_contact_def update_existing_def)
qed

lemma update_existing_keeps:
  "map c_id (update_existing ex cd view) = map c_id view
   \<and> contact_keys (update_existing ex cd view) = contact_keys view
   \<and> map c_notes (update_existing ex cd view) = map c_notes view
   \<and> map c_embedding (update_existing ex cd view) = map c_embedding view
   \<and> filter (\<lambda>c. c_id c \<noteq> c_id ex) (update_existing ex cd view) =
       filter (\<lambda>c. c_id c \<noteq> c_id ex) view"
  by (induction view) (simp_all add: update_existing_def contact_keys_def)

lemma sync_gmail_background_again:
  assumes fu: "find_user uid w = Some user" and gs: "google_service user = Some token"
    and run: "sync_gmail_pages fuel env user token None 0 w = Some (Inr n, w1)"
  shows "\<exists>evs. sync_gmail_background fuel env uid (w1\<lparr>sync_status := ss\<rparr>) =
           Some (w1\<lparr>trace := trace w1 @ evs, sync_status := mark_completed Gmail uid 0 env ss\<rparr>)
         \<and> list_all is_listing evs"
proof -
  let ?v = "w1\<lparr>sync_status := ss\<rparr>"
  have "sync_frame w w1" using run by (rule sync_gmail_pages_frame)
  then have fu1: "find_user uid ?v = Some user" using fu by (simp add: sync_frame_def find_user_def)
  have "prefix (emails w1) (emails ?v)" by simp
  from sync_gmail_pages_again [OF run this, of 0]
  obtain evs where p: "sync_gmail_pages fuel env user token None 0 ?v =
                         Some (Inr 0, ?v\<lparr>trace := trace ?v @ evs\<rparr>)"
    and li: "list_all is_listing evs" by blast
  have "sync_gmail_background fuel env uid ?v =
           Some (w1\<lparr>trace := trace w1 @ evs, sync_status := mark_completed Gmail uid 0 env ss\<rparr>)"
    using fu1 gs p by (simp add: sync_gmail_background_def)
  then show ?thesis using li by blast
qed

lemma sync_hubspot_background_again:
  assumes fu: "find_user uid w = Some user" and gs: "hubspot_service user = Some token"
    and run: "sync_hubspot_pages fuel env user token None 0 (contacts w) w = Some (Inr n, w1)"
  shows "\<exists>evs. sync_hubspot_background fuel env uid (w1\<lparr>sync_status := ss\<rparr>) =
           Some (w1\<lparr>trace := trace w1 @ evs, sync_status := mark_completed Hubspot uid 0 env ss\<rparr>)
         \<and> list_all is_listing evs"
proof -
  let ?v = "w1\<lparr>sync_status := ss\<rparr>"
  have "hs_frame w w1" using sync_hubspot_pages_props [OF run] by simp
  then have fu1: "find_user uid ?v = Some user" using fu by (simp add: hs_frame_def find_user_def)
  have "set (contact_keys (contacts w1)) \<subseteq> set (contact_keys (contacts ?v))" by simp
  from sync_hubspot_pages_again [OF run refl this, of 0 ?v]
  obtain evs where p: "sync_hubspot_pages fuel env user token None 0 (contacts ?v) ?v =
                         Some (Inr 0, ?v\<lparr>trace := trace ?v @ evs\<rparr>)"
    and li: "list_all is_listing evs" by blast
  have "sync_hubspot_background fuel env uid ?v =
           Some (w1\<lparr>trace := trace w1 @ evs, sync_status := mark_completed Hubspot uid 0 env ss\<rparr>)"
    using fu1 gs p by (simp add: sync_hubspot_background_def)
  then show ?thesis using li by blast
qed


lemma first_run_crm:
  "\<exists>view w'. sync_hubspot_contacts env_crm user2 ''hub2'' [hs_changed, hs_new] 0 [contact_old] w =
                (Inr (Suc 0, view), w')
     \<and> map (\<lambda>c. (hubspot_id c, c_email c, company c)) (contacts w') =
         [(''h1'', Some ''bob@new.org'', Some ''New Co''), (''h2'', Some ''carol@z.net'', None)]"
proof -
  have s: "strip (contact_text hs_new (join nl [])) \<noteq> []"
    by (simp add: strip_def is_space_def contact_text_def hs_new_def or_else_def)
  show ?thesis
    using s
    by (simp add: find_contact_def contact_old_def hs_changed_def user2_def Let_def
          update_existing_def hs_new_def env_crm_def env0_def commit_new_contact_def
          get_embedding_eq set_contact_embedding_def next_id_def)
qed

lemma first_run_pages_crm:
  "\<exists>w'. sync_hubspot_pages (Suc 0) env_crm user2 ''hub2'' None 0 [contact_old] world_crm =
                Some (Inr (Suc 0), w')
     \<and> map (\<lambda>c. (hubspot_id c, c_email c, company c)) (contacts w') =
         [(''h1'', Some ''bob@new.org'', Some ''New Co''), (''h2'', Some ''carol@z.net'', None)]"
proof -
  let ?w0 = "log_event (HubspotList None) world_crm"
  obtain view w' where
    c: "sync_hubspot_contacts env_crm user2 ''hub2'' [hs_changed, hs_new] 0 [contact_old] ?w0 =
          (Inr (Suc 0, view), w')"
    and m: "map (\<lambda>c. (hubspot_id c, c_email c, company c)) (contacts w') =
         [(''h1'', Some ''bob@new.org'', Some ''New Co''), (''h2'', Some ''carol@z.net'', None)]"
    using first_run_crm [of ?w0] by (elim exE conjE)
  have l: "hubspot_list env_crm ''hub2'' None = Inr ([hs_changed, hs_new], None)"
    by (simp add: env_crm_def)
  have "sync_hubspot_pages (Suc 0) env_crm user2 ''hub2'' None 0 [contact_old] world_crm =
          Some (Inr (Suc 0), w')"
    using l c by (simp add: Let_def truthy_def del: sync_hubspot_contacts.simps)
  then show ?thesis using m by (intro exI [of _ w'] conjI)
qed

lemma import_email_world0:
  assumes "gid \<notin> set (map gmail_id (emails w))" and "instructions w = []"
  shows "\<exists>w'. import_email env_pages user0 gid parsed0 w = (Inr (), w')
           \<and> map gmail_id (emails w') = map gmail_id (emails w) @ [gid]
           \<and> instructions w' = []"
proof -
  have s: "strip (p_subject parsed0 @ '' '' @ p_body_text parsed0) \<noteq> []"
    by (simp add: strip_def is_space_def parsed0_def)
  show ?thesis
    using s assms
    by (simp add: import_email_def insert_email_def Let_def get_embedding_eq env_pages_def
          env0_def set_email_embedding_def process_ongoing_instructions_def
          matching_instructions_def log_event_def comp_def)
qed

lemma not_exists_email:
  "gid \<notin> set (map gmail_id (emails w)) \<Longrightarrow> \<not> exists_email uid gid w"
  by (auto simp: exists_email_def)

lemma sync_gmail_messages_new:
  assumes "gid \<notin> set (map gmail_id (emails w))" and "instructions w = []"
  shows "\<exists>w'. sync_gmail_messages env_pages user0 ''tok'' (gid # msgs) n w =
                sync_gmail_messages env_pages user0 ''tok'' msgs (Suc n) w'
           \<and> map gmail_id (emails w') = map gmail_id (emails w) @ [gid]
           \<and> instructions w' = []"
proof -
  let ?w1 = "log_event (GmailGet gid) w"
  have ne: "\<not> exists_email (u_id user0) gid w" using assms(1) by (rule not_exists_email)
  have ft: "gmail_fetch env_pages ''tok'' gid = Inr parsed0" by (simp add: env_pages_def env0_def)
  have "gid \<notin> set (map gmail_id (emails ?w1))" "instructions ?w1 = []"
    using assms by (simp_all add: log_event_def)
  from import_email_world0 [OF this]
  obtain w' where im: "import_email env_pages user0 gid parsed0 ?w1 = (Inr (), w')"
    and ids: "map gmail_id (emails w') = map gmail_id (emails ?w1) @ [gid]"
    and ins: "instructions w' = []" by (elim exE conjE)
  have "sync_gmail_messages env_pages user0 ''tok'' (gid # msgs) n w =
          sync_gmail_messages env_pages user0 ''tok'' msgs (Suc n) w'"
    using ne ft im by (simp add: Let_def)
  moreover have "map gmail_id (emails w') = map gmail_id (emails w) @ [gid]"
    using ids by (simp add: log_event_def)
  ultimately show ?thesis using ins by (intro exI [of _ w'] conjI)
qed

lemma first_run_pages_gmail:
  "\<exists>w'. sync_gmail_pages (Suc (Suc 0)) env_pages user0 ''tok'' None 0 world_busy =
           Some (Inr 3, w')
        \<and> map gmail_id (emails w') = [''a'', ''b'', ''c'']"
proof -
  let ?w0 = "log_event (GmailList None None) world_busy"
  have l1: "gmail_list env_pages ''tok'' None None = Inr ([''a'', ''b''], Some ''p2'')"
    by (simp add: env_pages_def)
  have l2: "gmail_list env_pages ''tok'' None (Some ''p2'') = Inr ([''c''], None)"
    by (simp add: env_pages_def)
  have e0: "map gmail_id (emails ?w0) = []" and i0: "instructions ?w0 = []"
    by (simp_all add: log_event_def world_busy_def world0_def)
  have "''a'' \<notin> set (map gmail_id (emails ?w0))" using e0 by simp
  from sync_gmail_messages_new [OF this i0, of "[''b'']" 0]
  obtain wa where
    sa: "sync_gmail_messages env_pages user0 ''tok'' [''a'', ''b''] 0 ?w0 =
           sync_gmail_messages env_pages user0 ''tok'' [''b''] (Suc 0) wa"
    and ea: "map gmail_id (emails wa) = map gmail_id (emails ?w0) @ [''a'']"
    and ia: "instructions wa = []" by (elim exE conjE)
  have "''b'' \<notin> set (map gmail_id (emails wa))" using ea e0 by simp
  from sync_gmail_messages_new [OF this ia, of "[]" "Suc 0"]
  obtain wb where
    sb: "sync_gmail_messages env_pages user0 ''tok'' [''b''] (Suc 0) wa =
           sync_gmail_messages env_pages user0 ''tok'' [] (Suc (Suc 0)) wb"
    and eb: "map gmail_id (emails wb) = map gmail_id (emails wa) @ [''b'']"
    and ib: "instructions wb = []" by (elim exE conjE)
  have m1: "sync_gmail_messages env_pages user0 ''tok'' [''a'', ''b''] 0 ?w0 = (Inr (Suc (Suc 0)), wb)"
    using sa sb by simp
  let ?w2 = "log_event (GmailList None (Some ''p2'')) wb"
  have nc: "''c'' \<notin> set (map gmail_id (emails ?w2))"
    using eb ea e0 by (simp add: log_event_def)
  have ic: "instructions ?w2 = []" using ib by (simp add: log_event_def)
  from sync_gmail_messages_new [OF nc ic, of "[]" "Suc (Suc 0)"]
  obtain wc where
    sc: "sync_gmail_messages env_pages user0 ''tok'' [''c''] (Suc (Suc 0)) ?w2 =
           sync_gmail_messages env_pages user0 ''tok'' [] (Suc (Suc (Suc 0))) wc"
    and ec: "map gmail_id (emails wc) = map gmail_id (emails ?w2) @ [''c'']"
    and ic': "instructions wc = []" by (elim exE conjE)
  have m2: "sync_gmail_messages env_pages user0 ''tok'' [''c''] (Suc (Suc 0)) ?w2 = (Inr 3, wc)"
    using sc by (simp add: numeral_3_eq_3)
  have p2: "sync_gmail_pages (Suc 0) env_pages user0 ''tok'' (Some ''p2'') (Suc (Suc 0)) wb =
              Some (Inr 3, wc)"
    using l2 m2 by (simp add: Let_def truthy_def del: sync_gmail_messages.simps)
  have p1: "sync_gmail_pages (Suc (Suc 0)) env_pages user0 ''tok'' None 0 world_busy =
              Some (Inr 3, wc)"
    using l1 m1 p2
    by (subst sync_gmail_pages.simps(2))
       (simp add: Let_def truthy_def del: sync_gmail_messages.simps sync_gmail_pages.simps)
  have "map gmail_id (emails wc) = [''a'', ''b'', ''c'']"
    using ec eb ea e0 by (simp add: log_event_def)
  with p1 show ?thesis by (intro exI [of _ wc] conjI)
qed



end
